theory Spec2Isabelle
  imports Main "HOL-Library.Word"
begin

section \<open>The RPC layer of the ledger commit log (internal/web/server.go)\<close>

text \<open>
  The server is a thin adapter: every handler delegates to one of three interfaces held in
  its \<open>Config\<close> (\<open>CommitLog\<close>, \<open>Authorizer\<close>, \<open>ServerGetter\<close>) and to the gRPC stream it is
  given. The interfaces are parameters of the model. Each interface method is a function
  on a world state \<open>'s\<close> that returns Go's result tuple and the next world state, so an
  implementation may be stateful and may depend on anything that happened before
  (appends by other clients, a cancellation, a clock).

  Every call a handler makes through an interface is also recorded, with its arguments and
  its results, in a trace kept beside the world state. The trace is how statements of the
  form "the handler calls X before Y" or "the handler never calls Z" are expressed.

  Go values: a pointer is an \<open>option\<close> (\<open>None\<close> is \<open>nil\<close>), an \<open>error\<close> interface value is an
  \<open>error option\<close>, a result tuple is a pair, \<open>uint64\<close> is a 64-bit word. A panic is the
  outcome \<open>Panics\<close>. Request messages are taken as allocated (gRPC hands a handler a
  non-nil message).
\<close>

subsection \<open>Values of package api\<close>

type_synonym uint64 = "64 word"

text \<open>
  Modelled from the spec: package \<open>api\<close> (\<open>ledger/api/v1\<close>), which declares
  \<open>ErrOffsetOutOfRange\<close>, the request and response messages and \<open>Server\<close>, is not among the
  sources. \<open>OffsetOutOfRange\<close> is one kind of the spec's error taxonomy, beside \<open>NotLeader\<close>,
  \<open>Timeout\<close>, \<open>CorruptState\<close> and whatever an authorizer or a stream returns. server.go tells
  error values apart only in the type switch of \<open>ConsumeStream\<close>: the dynamic type is
  \<open>api.ErrOffsetOutOfRange\<close> or it is something else. \<open>'x\<close> is what the value carries.
\<close>

datatype 'x error = ErrOffsetOutOfRange 'x | OtherError 'x

text \<open>
  Modelled from the spec: the messages of package \<open>api\<close>, with the fields server.go reads and
  writes. \<open>'r\<close> is \<open>api.Record\<close>, which server.go only passes on (the spec: an opaque payload
  with an assigned offset); a message field of type \<open>*api.Record\<close> may be \<open>nil\<close>.
\<close>

record 'r ProduceRequest =
  Record :: "'r option"

record ProduceResponse =
  Offset :: uint64

record ConsumeRequest =
  Offset :: uint64

record 'r ConsumeResponse =
  Record :: "'r option"

text \<open>
  Modelled from the spec: \<open>Server = (id, address, isLeader)\<close>. \<open>GetServersRequest\<close> has no
  field that server.go reads.
\<close>

record Server =
  Id :: string
  RpcAddr :: string
  IsLeader :: bool

type_synonym GetServersRequest = unit

record GetServersResponse =
  Servers :: "Server list"

subsection \<open>ACL policy keywords\<close>

definition objectWildcard :: string where
  "objectWildcard = ''*''"

definition produceAction :: string where
  "produceAction = ''produce''"

definition consumeAction :: string where
  "consumeAction = ''consume''"

subsection \<open>The interfaces and the configuration\<close>

record ('s, 'r, 'x) CommitLog =
  Append :: "'r option \<Rightarrow> 's \<Rightarrow> (uint64 \<times> 'x error option) \<times> 's"
  Read :: "uint64 \<Rightarrow> 's \<Rightarrow> ('r option \<times> 'x error option) \<times> 's"

record ('s, 'x) Authorizer =
  Authorize :: "string \<Rightarrow> string \<Rightarrow> string \<Rightarrow> 's \<Rightarrow> 'x error option \<times> 's"

record ('s, 'x) ServerGetter =
  GetServers :: "'s \<Rightarrow> (Server list \<times> 'x error option) \<times> 's"

text \<open>The three fields are interface values: each may be \<open>nil\<close>.\<close>

record ('s, 'r, 'x) Config =
  CommitLog :: "('s, 'r, 'x) CommitLog option"
  Authorizer :: "('s, 'x) Authorizer option"
  ServerGetter :: "('s, 'x) ServerGetter option"

text \<open>
  A \<open>context.Context\<close>: the value stored under \<open>subjectContextKey{}\<close> (absent when no
  interceptor wrote it) and whether the \<open>Done\<close> channel is closed in a given world state.
\<close>

record 's Context =
  Value :: "string option"
  Done :: "'s \<Rightarrow> bool"

record ('s, 'r, 'x) Log_ProduceStreamServer =
  Context :: "'s Context"
  Recv :: "'s \<Rightarrow> ('r ProduceRequest \<times> 'x error option) \<times> 's"
  Send :: "ProduceResponse option \<Rightarrow> 's \<Rightarrow> 'x error option \<times> 's"

record ('s, 'r, 'x) Log_ConsumeStreamServer =
  Context :: "'s Context"
  Send :: "'r ConsumeResponse option \<Rightarrow> 's \<Rightarrow> 'x error option \<times> 's"

subsection \<open>The world: interface state and the trace of calls\<close>

datatype ('r, 'x) event =
    EvDone bool
  | EvAuthorize string string string "'x error option"
  | EvAppend "'r option" uint64 "'x error option"
  | EvRead uint64 "'r option" "'x error option"
  | EvGetServers "Server list" "'x error option"
  | EvRecv "'r ProduceRequest" "'x error option"
  | EvSendProduce "ProduceResponse option" "'x error option"
  | EvSendConsume "'r ConsumeResponse option" "'x error option"

record ('s, 'r, 'x) world =
  trace :: "('r, 'x) event list"
  state :: 's

datatype 'a outcome = Panics | Returns 'a

definition log_event :: "('r, 'x) event \<Rightarrow> 's \<Rightarrow> ('s, 'r, 'x) world \<Rightarrow> ('s, 'r, 'x) world" where
  "log_event ev s w = \<lparr>trace = trace w @ [ev], state = s\<rparr>"

definition call_Authorize ::
  "('s, 'x) Authorizer \<Rightarrow> string \<Rightarrow> string \<Rightarrow> string \<Rightarrow> ('s, 'r, 'x) world
    \<Rightarrow> 'x error option \<times> ('s, 'r, 'x) world" where
  "call_Authorize a sub obj act w =
     (case Authorize a sub obj act (state w) of
        (err, s) \<Rightarrow> (err, log_event (EvAuthorize sub obj act err) s w))"

definition call_Append ::
  "('s, 'r, 'x) CommitLog \<Rightarrow> 'r option \<Rightarrow> ('s, 'r, 'x) world
    \<Rightarrow> (uint64 \<times> 'x error option) \<times> ('s, 'r, 'x) world" where
  "call_Append cl r w =
     (case Append cl r (state w) of
        ((offset, err), s) \<Rightarrow> ((offset, err), log_event (EvAppend r offset err) s w))"

definition call_Read ::
  "('s, 'r, 'x) CommitLog \<Rightarrow> uint64 \<Rightarrow> ('s, 'r, 'x) world
    \<Rightarrow> ('r option \<times> 'x error option) \<times> ('s, 'r, 'x) world" where
  "call_Read cl off w =
     (case Read cl off (state w) of
        ((record, err), s) \<Rightarrow> ((record, err), log_event (EvRead off record err) s w))"

definition call_GetServers ::
  "('s, 'x) ServerGetter \<Rightarrow> ('s, 'r, 'x) world
    \<Rightarrow> (Server list \<times> 'x error option) \<times> ('s, 'r, 'x) world" where
  "call_GetServers sg w =
     (case ServerGetter.GetServers sg (state w) of
        ((servers, err), s) \<Rightarrow> ((servers, err), log_event (EvGetServers servers err) s w))"

definition check_Done :: "'s Context \<Rightarrow> ('s, 'r, 'x) world \<Rightarrow> bool \<times> ('s, 'r, 'x) world" where
  "check_Done ctx w = (Done ctx (state w), log_event (EvDone (Done ctx (state w))) (state w) w)"

subsection \<open>The handlers\<close>

text \<open>
  \<open>subject\<close> asserts that the stored value is a string: with no value stored the type
  assertion panics.
\<close>

definition subject :: "'s Context \<Rightarrow> string outcome" where
  "subject ctx = (case Value ctx of None \<Rightarrow> Panics | Some s \<Rightarrow> Returns s)"

definition Produce ::
  "('s, 'r, 'x) Config \<Rightarrow> 's Context \<Rightarrow> 'r ProduceRequest \<Rightarrow> ('s, 'r, 'x) world
    \<Rightarrow> (ProduceResponse option \<times> 'x error option) outcome \<times> ('s, 'r, 'x) world" where
  "Produce this ctx req w =
     (case (case Config.Authorizer this of
              None \<Rightarrow> (Returns None, w)
            | Some a \<Rightarrow>
                (case subject ctx of
                   Panics \<Rightarrow> (Panics, w)
                 | Returns sub \<Rightarrow>
                     (case call_Authorize a sub objectWildcard consumeAction w of
                        (err, w1) \<Rightarrow> (Returns err, w1)))) of
        (Panics, w1) \<Rightarrow> (Panics, w1)
      | (Returns (Some err), w1) \<Rightarrow> (Returns (None, Some err), w1)
      | (Returns None, w1) \<Rightarrow>
          (case Config.CommitLog this of
             None \<Rightarrow> (Panics, w1)
           | Some cl \<Rightarrow>
               (case call_Append cl (ProduceRequest.Record req) w1 of
                  ((offset, Some err), w2) \<Rightarrow> (Returns (None, Some err), w2)
                | ((offset, None), w2) \<Rightarrow>
                    (Returns (Some \<lparr>ProduceResponse.Offset = offset\<rparr>, None), w2))))"

definition Consume ::
  "('s, 'r, 'x) Config \<Rightarrow> 's Context \<Rightarrow> ConsumeRequest \<Rightarrow> ('s, 'r, 'x) world
    \<Rightarrow> ('r ConsumeResponse option \<times> 'x error option) outcome \<times> ('s, 'r, 'x) world" where
  "Consume this ctx req w =
     (case (case Config.Authorizer this of
              None \<Rightarrow> (Returns None, w)
            | Some a \<Rightarrow>
                (case subject ctx of
                   Panics \<Rightarrow> (Panics, w)
                 | Returns sub \<Rightarrow>
                     (case call_Authorize a sub objectWildcard consumeAction w of
                        (err, w1) \<Rightarrow> (Returns err, w1)))) of
        (Panics, w1) \<Rightarrow> (Panics, w1)
      | (Returns (Some err), w1) \<Rightarrow> (Returns (None, Some err), w1)
      | (Returns None, w1) \<Rightarrow>
          (case Config.CommitLog this of
             None \<Rightarrow> (Panics, w1)
           | Some cl \<Rightarrow>
               (case call_Read cl (ConsumeRequest.Offset req) w1 of
                  ((record, Some err), w2) \<Rightarrow> (Returns (None, Some err), w2)
                | ((record, None), w2) \<Rightarrow>
                    (Returns (Some \<lparr>ConsumeResponse.Record = record\<rparr>, None), w2))))"

definition GetServers ::
  "('s, 'r, 'x) Config \<Rightarrow> 's Context \<Rightarrow> GetServersRequest \<Rightarrow> ('s, 'r, 'x) world
    \<Rightarrow> (GetServersResponse option \<times> 'x error option) outcome \<times> ('s, 'r, 'x) world" where
  "GetServers s ctx req w =
     (case Config.ServerGetter s of
        None \<Rightarrow> (Panics, w)
      | Some sg \<Rightarrow>
          (case call_GetServers sg w of
             ((servers, Some err), w1) \<Rightarrow> (Returns (None, Some err), w1)
           | ((servers, None), w1) \<Rightarrow> (Returns (Some \<lparr>Servers = servers\<rparr>, None), w1)))"

definition call_Recv ::
  "('s, 'r, 'x) Log_ProduceStreamServer \<Rightarrow> ('s, 'r, 'x) world
    \<Rightarrow> ('r ProduceRequest \<times> 'x error option) \<times> ('s, 'r, 'x) world" where
  "call_Recv stream w =
     (case Recv stream (state w) of
        ((req, err), s) \<Rightarrow> ((req, err), log_event (EvRecv req err) s w))"

definition call_SendProduce ::
  "('s, 'r, 'x) Log_ProduceStreamServer \<Rightarrow> ProduceResponse option \<Rightarrow> ('s, 'r, 'x) world
    \<Rightarrow> 'x error option \<times> ('s, 'r, 'x) world" where
  "call_SendProduce stream res w =
     (case Log_ProduceStreamServer.Send stream res (state w) of
        (err, s) \<Rightarrow> (err, log_event (EvSendProduce res err) s w))"

definition call_SendConsume ::
  "('s, 'r, 'x) Log_ConsumeStreamServer \<Rightarrow> 'r ConsumeResponse option \<Rightarrow> ('s, 'r, 'x) world
    \<Rightarrow> 'x error option \<times> ('s, 'r, 'x) world" where
  "call_SendConsume stream res w =
     (case Log_ConsumeStreamServer.Send stream res (state w) of
        (err, s) \<Rightarrow> (err, log_event (EvSendConsume res err) s w))"

text \<open>
  The two stream handlers are \<open>for { ... }\<close> loops with no exit condition of their own. One
  pass through the loop body either leaves the handler (\<open>Exit\<close>, by \<open>return\<close> or by a panic)
  or goes on to the next pass (\<open>Next\<close>, by \<open>continue\<close> or by reaching the end of the body).
  The loop runs the body for at most \<open>fuel\<close> passes; \<open>Next\<close> as the result of the loop means
  that the handler is still running after that many passes.
\<close>

datatype 'a step = Next | Exit 'a

definition ProduceStream_body ::
  "('s, 'r, 'x) Config \<Rightarrow> ('s, 'r, 'x) Log_ProduceStreamServer \<Rightarrow> ('s, 'r, 'x) world
    \<Rightarrow> 'x error option outcome step \<times> ('s, 'r, 'x) world" where
  "ProduceStream_body this stream w =
     (case call_Recv stream w of
        ((req, Some err), w1) \<Rightarrow> (Exit (Returns (Some err)), w1)
      | ((req, None), w1) \<Rightarrow>
          (case Produce this (Log_ProduceStreamServer.Context stream) req w1 of
             (Panics, w2) \<Rightarrow> (Exit Panics, w2)
           | (Returns (res, Some err), w2) \<Rightarrow> (Exit (Returns (Some err)), w2)
           | (Returns (res, None), w2) \<Rightarrow>
               (case call_SendProduce stream res w2 of
                  (Some err, w3) \<Rightarrow> (Exit (Returns (Some err)), w3)
                | (None, w3) \<Rightarrow> (Next, w3))))"

fun ProduceStream ::
  "nat \<Rightarrow> ('s, 'r, 'x) Config \<Rightarrow> ('s, 'r, 'x) Log_ProduceStreamServer \<Rightarrow> ('s, 'r, 'x) world
    \<Rightarrow> 'x error option outcome step \<times> ('s, 'r, 'x) world" where
  "ProduceStream 0 this stream w = (Next, w)"
| "ProduceStream (Suc fuel) this stream w =
     (case ProduceStream_body this stream w of
        (Next, w1) \<Rightarrow> ProduceStream fuel this stream w1
      | (Exit r, w1) \<Rightarrow> (Exit r, w1))"

text \<open>
  \<open>ConsumeStream\<close> updates \<open>req.Offset\<close> in place, so the request is part of what a pass
  returns. The \<open>select\<close> takes the \<open>Done\<close> case whenever the channel is closed and the
  \<open>default\<close> case otherwise.
\<close>

definition ConsumeStream_body ::
  "('s, 'r, 'x) Config \<Rightarrow> ConsumeRequest \<Rightarrow> ('s, 'r, 'x) Log_ConsumeStreamServer
    \<Rightarrow> ('s, 'r, 'x) world
    \<Rightarrow> 'x error option outcome step \<times> ConsumeRequest \<times> ('s, 'r, 'x) world" where
  "ConsumeStream_body this req stream w =
     (case check_Done (Log_ConsumeStreamServer.Context stream) w of
        (True, w1) \<Rightarrow> (Exit (Returns None), req, w1)
      | (False, w1) \<Rightarrow>
          (case Consume this (Log_ConsumeStreamServer.Context stream) req w1 of
             (Panics, w2) \<Rightarrow> (Exit Panics, req, w2)
           | (Returns (res, err), w2) \<Rightarrow>
               (case err of
                  None \<Rightarrow>
                    (case call_SendConsume stream res w2 of
                       (Some err', w3) \<Rightarrow> (Exit (Returns (Some err')), req, w3)
                     | (None, w3) \<Rightarrow>
                         (Next, req\<lparr>ConsumeRequest.Offset := ConsumeRequest.Offset req + 1\<rparr>, w3))
                | Some (ErrOffsetOutOfRange x) \<Rightarrow> (Next, req, w2)
                | Some (OtherError x) \<Rightarrow> (Exit (Returns err), req, w2))))"

fun ConsumeStream ::
  "nat \<Rightarrow> ('s, 'r, 'x) Config \<Rightarrow> ConsumeRequest \<Rightarrow> ('s, 'r, 'x) Log_ConsumeStreamServer
    \<Rightarrow> ('s, 'r, 'x) world
    \<Rightarrow> 'x error option outcome step \<times> ConsumeRequest \<times> ('s, 'r, 'x) world" where
  "ConsumeStream 0 this req stream w = (Next, req, w)"
| "ConsumeStream (Suc fuel) this req stream w =
     (case ConsumeStream_body this req stream w of
        (Next, req1, w1) \<Rightarrow> ConsumeStream fuel this req1 stream w1
      | (Exit r, req1, w1) \<Rightarrow> (Exit r, req1, w1))"

subsection \<open>Construction of the server\<close>





subsection \<open>Reading a trace\<close>

text \<open>The events a handler added to the trace between the worlds \<open>w\<close> and \<open>w'\<close>.\<close>

definition new_events :: "('s, 'r, 'x) world \<Rightarrow> ('s, 'r, 'x) world \<Rightarrow> ('r, 'x) event list" where
  "new_events w w' = drop (length (trace w)) (trace w')"

fun is_Append :: "('r, 'x) event \<Rightarrow> bool" where
  "is_Append (EvAppend r offset err) = True"
| "is_Append ev = False"

text \<open>The actions passed to \<open>Authorize\<close>, in order.\<close>

fun authorized_actions :: "('r, 'x) event list \<Rightarrow> string list" where
  "authorized_actions [] = []"
| "authorized_actions (EvAuthorize sub obj act err # evs) = act # authorized_actions evs"
| "authorized_actions (ev # evs) = authorized_actions evs"

text \<open>The offsets passed to \<open>Read\<close>, in order.\<close>

fun read_offsets :: "('r, 'x) event list \<Rightarrow> uint64 list" where
  "read_offsets [] = []"
| "read_offsets (EvRead off record err # evs) = off # read_offsets evs"
| "read_offsets (ev # evs) = read_offsets evs"

text \<open>The reads that returned no error: the offset asked for and the record returned.\<close>

fun successful_reads :: "('r, 'x) event list \<Rightarrow> (uint64 \<times> 'r option) list" where
  "successful_reads [] = []"
| "successful_reads (EvRead off record None # evs) = (off, record) # successful_reads evs"
| "successful_reads (ev # evs) = successful_reads evs"

text \<open>The responses handed to \<open>Send\<close> of a consume stream, each with what \<open>Send\<close> returned.\<close>

fun sent_responses :: "('r, 'x) event list \<Rightarrow> ('r ConsumeResponse option \<times> 'x error option) list" where
  "sent_responses [] = []"
| "sent_responses (EvSendConsume res err # evs) = (res, err) # sent_responses evs"
| "sent_responses (ev # evs) = sent_responses evs"

text \<open>How many responses of a consume stream were sent without error.\<close>

definition sent_ok :: "('r, 'x) event list \<Rightarrow> nat" where
  "sent_ok evs = length (filter (\<lambda>(res, err). err = None) (sent_responses evs))"

text \<open>The results of the cancellation checks, in order.\<close>

fun done_checks :: "('r, 'x) event list \<Rightarrow> bool list" where
  "done_checks [] = []"
| "done_checks (EvDone b # evs) = b # done_checks evs"
| "done_checks (ev # evs) = done_checks evs"

text \<open>
  Every read in \<open>evs\<close> asks for the offset \<open>k\<close> advanced by the number of responses sent
  without error before it.
\<close>

definition reads_at :: "uint64 \<Rightarrow> ('r, 'x) event list \<Rightarrow> bool" where
  "reads_at k evs =
     (\<forall>i<length evs. \<forall>off rcd err. evs ! i = EvRead off rcd err \<longrightarrow>
        off = k + of_nat (sent_ok (take i evs)))"

text \<open>The same \<open>Consume\<close> request, handled \<open>n\<close> times in a row.\<close>

fun Consume_repeated ::
  "nat \<Rightarrow> ('s, 'r, 'x) Config \<Rightarrow> 's Context \<Rightarrow> ConsumeRequest \<Rightarrow> ('s, 'r, 'x) world
    \<Rightarrow> ('r ConsumeResponse option \<times> 'x error option) outcome list \<times> ('s, 'r, 'x) world" where
  "Consume_repeated 0 this ctx req w = ([], w)"
| "Consume_repeated (Suc n) this ctx req w =
     (case Consume this ctx req w of
        (out, w1) \<Rightarrow>
          (case Consume_repeated n this ctx req w1 of
             (outs, w2) \<Rightarrow> (out # outs, w2)))"

subsection \<open>An in-memory instance of the interfaces\<close>

text \<open>
  The theorems below hold for every implementation of the interfaces. To show that their
  hypotheses can be met, they are also run on one small implementation: a log kept as a
  list of strings, an access list that lets only \<open>root\<close> in, a fixed cluster of two
  servers, and streams whose \<open>Send\<close> always succeeds. \<open>arriving\<close> holds the records that
  other clients are about to append.
\<close>

record mem =
  records :: "string list"
  arriving :: "string list"

definition memLog :: "(mem, string, string) CommitLog" where
  "memLog =
     \<lparr>Append = (\<lambda>r s. case r of
                   None \<Rightarrow> ((0, Some (OtherError ''nil record'')), s)
                 | Some v \<Rightarrow> ((of_nat (length (records s)), None),
                              s\<lparr>records := records s @ [v]\<rparr>)),
      Read = (\<lambda>off s.
                 if unat off < length (records s)
                 then ((Some (records s ! unat off), None), s)
                 else ((None, Some (ErrOffsetOutOfRange ''offset out of range'')), s))\<rparr>"

text \<open>
  The same log seen by a consumer that polls while a producer is writing: after a read
  beyond the end of the log, the next arriving record is appended.
\<close>

definition tailLog :: "(mem, string, string) CommitLog" where
  "tailLog =
     memLog\<lparr>Read := (\<lambda>off s.
                 if unat off < length (records s)
                 then ((Some (records s ! unat off), None), s)
                 else ((None, Some (ErrOffsetOutOfRange ''offset out of range'')),
                       (case arriving s of
                          [] \<Rightarrow> s
                        | v # vs \<Rightarrow> \<lparr>records = records s @ [v], arriving = vs\<rparr>)))\<rparr>"

text \<open>A log in which no offset is ever readable.\<close>

definition voidLog :: "(mem, string, string) CommitLog" where
  "voidLog =
     memLog\<lparr>Read := (\<lambda>off s. ((None, Some (ErrOffsetOutOfRange ''offset out of range'')), s))\<rparr>"

text \<open>A log whose storage is broken: every read fails with an error of another kind.\<close>

definition brokenLog :: "(mem, string, string) CommitLog" where
  "brokenLog =
     \<lparr>Append = (\<lambda>r s. ((0, Some (OtherError ''corrupt state'')), s)),
      Read = (\<lambda>off s. ((None, Some (OtherError ''corrupt state'')), s))\<rparr>"

definition acl :: "(mem, string) Authorizer" where
  "acl = \<lparr>Authorize = (\<lambda>sub obj act s.
            (if sub = ''root'' then None else Some (OtherError ''permission denied''), s))\<rparr>"

definition members :: "Server list" where
  "members =
     [\<lparr>Id = ''0'', RpcAddr = ''127.0.0.1:8400'', IsLeader = True\<rparr>,
      \<lparr>Id = ''1'', RpcAddr = ''127.0.0.1:8401'', IsLeader = False\<rparr>]"

definition cluster :: "(mem, string) ServerGetter" where
  "cluster = \<lparr>ServerGetter.GetServers = (\<lambda>s. ((members, None), s))\<rparr>"

text \<open>A discovery handler that cannot answer.\<close>

definition unreachable :: "(mem, string) ServerGetter" where
  "unreachable = \<lparr>ServerGetter.GetServers = (\<lambda>s. (([], Some (OtherError ''no leader'')), s))\<rparr>"

definition secured :: "(mem, string, string) Config" where
  "secured = \<lparr>CommitLog = Some memLog, Authorizer = Some acl, ServerGetter = Some cluster\<rparr>"

definition unsecured :: "(mem, string, string) Config" where
  "unsecured = \<lparr>CommitLog = Some memLog, Authorizer = None, ServerGetter = Some cluster\<rparr>"

definition tailing :: "(mem, string, string) Config" where
  "tailing = \<lparr>CommitLog = Some tailLog, Authorizer = None, ServerGetter = Some cluster\<rparr>"

definition void :: "(mem, string, string) Config" where
  "void = \<lparr>CommitLog = Some voidLog, Authorizer = None, ServerGetter = Some cluster\<rparr>"

definition broken :: "(mem, string, string) Config" where
  "broken = \<lparr>CommitLog = Some brokenLog, Authorizer = None, ServerGetter = Some cluster\<rparr>"

definition asRoot :: "mem Context" where
  "asRoot = \<lparr>Value = Some ''root'', Done = (\<lambda>s. False)\<rparr>"

definition asNobody :: "mem Context" where
  "asNobody = \<lparr>Value = Some ''nobody'', Done = (\<lambda>s. False)\<rparr>"

text \<open>A context that is cancelled as soon as the log holds four records.\<close>

definition untilFour :: "mem Context" where
  "untilFour = \<lparr>Value = Some ''root'', Done = (\<lambda>s. 4 \<le> length (records s))\<rparr>"

definition consumer :: "mem Context \<Rightarrow> (mem, string, string) Log_ConsumeStreamServer" where
  "consumer ctx =
     \<lparr>Log_ConsumeStreamServer.Context = ctx,
      Log_ConsumeStreamServer.Send = (\<lambda>res s. (None, s))\<rparr>"

text \<open>A producing client that sends the arriving records one by one and then closes.\<close>

definition producer :: "mem Context \<Rightarrow> (mem, string, string) Log_ProduceStreamServer" where
  "producer ctx =
     \<lparr>Log_ProduceStreamServer.Context = ctx,
      Log_ProduceStreamServer.Recv = (\<lambda>s. case arriving s of
                [] \<Rightarrow> ((\<lparr>ProduceRequest.Record = None\<rparr>, Some (OtherError ''EOF'')), s)
              | v # vs \<Rightarrow> ((\<lparr>ProduceRequest.Record = Some v\<rparr>, None), s\<lparr>arriving := vs\<rparr>)),
      Log_ProduceStreamServer.Send = (\<lambda>res s. (None, s))\<rparr>"

text \<open>
  An access list that lets everyone in and takes its time: while \<open>Authorize\<close> runs, the next
  arriving record is appended by another client.
\<close>

definition slowAcl :: "(mem, string) Authorizer" where
  "slowAcl = \<lparr>Authorize = (\<lambda>sub obj act s.
            (None, (case arriving s of
                      [] \<Rightarrow> s
                    | v # vs \<Rightarrow> \<lparr>records = records s @ [v], arriving = vs\<rparr>)))\<rparr>"

definition racing :: "(mem, string, string) Config" where
  "racing = \<lparr>CommitLog = Some memLog, Authorizer = Some slowAcl, ServerGetter = Some cluster\<rparr>"

text \<open>A log in which every offset is readable.\<close>

definition endlessLog :: "(mem, string, string) CommitLog" where
  "endlessLog = memLog\<lparr>Read := (\<lambda>off s. ((Some ''tick'', None), s))\<rparr>"

definition endless :: "(mem, string, string) Config" where
  "endless = \<lparr>CommitLog = Some endlessLog, Authorizer = None, ServerGetter = Some cluster\<rparr>"

text \<open>A consume stream whose \<open>Send\<close> fails once its context is done, as a gRPC stream does.\<close>

definition closing :: "mem Context \<Rightarrow> (mem, string, string) Log_ConsumeStreamServer" where
  "closing ctx =
     \<lparr>Log_ConsumeStreamServer.Context = ctx,
      Log_ConsumeStreamServer.Send =
        (\<lambda>res s. (if Done ctx s then Some (OtherError ''context canceled'') else None, s))\<rparr>"

definition threeRecords :: mem where
  "threeRecords = \<lparr>records = [''msg-0'', ''msg-1'', ''msg-2''], arriving = [''msg-3'']\<rparr>"

definition w0 :: "(mem, string, string) world" where
  "w0 = \<lparr>trace = [], state = threeRecords\<rparr>"

section \<open>Properties\<close>

subsection \<open>Unfolding the calls and the in-memory instance\<close>

lemmas call_defs = call_Authorize_def call_Append_def call_Read_def call_GetServers_def
  call_Recv_def call_SendProduce_def call_SendConsume_def check_Done_def log_event_def

lemmas mem_defs = memLog_def tailLog_def voidLog_def brokenLog_def acl_def members_def
  cluster_def unreachable_def secured_def unsecured_def tailing_def void_def broken_def
  asRoot_def asNobody_def untilFour_def consumer_def producer_def threeRecords_def w0_def
  objectWildcard_def consumeAction_def produceAction_def
  slowAcl_def racing_def endlessLog_def endless_def closing_def

lemma ConsumeStream_numeral:
  "ConsumeStream (numeral k) this req stream w =
     (case ConsumeStream_body this req stream w of
        (Next, req1, w1) \<Rightarrow> ConsumeStream (pred_numeral k) this req1 stream w1
      | (Exit r, req1, w1) \<Rightarrow> (Exit r, req1, w1))"
  by (simp add: numeral_eq_Suc)

lemma ProduceStream_numeral:
  "ProduceStream (numeral k) this stream w =
     (case ProduceStream_body this stream w of
        (Next, w1) \<Rightarrow> ProduceStream (pred_numeral k) this stream w1
      | (Exit r, w1) \<Rightarrow> (Exit r, w1))"
  by (simp add: numeral_eq_Suc)

lemma Consume_repeated_numeral:
  "Consume_repeated (numeral k) this ctx req w =
     (case Consume this ctx req w of
        (out, w1) \<Rightarrow>
          (case Consume_repeated (pred_numeral k) this ctx req w1 of
             (outs, w2) \<Rightarrow> (out # outs, w2)))"
  by (simp add: numeral_eq_Suc)

subsection \<open>The paths through Produce\<close>

lemma Produce_open:
  assumes "Config.Authorizer this = None" "Config.CommitLog this = Some cl"
    and "Append cl (ProduceRequest.Record req) (state w) = ((offset, err), s)"
  shows "Produce this ctx req w =
     ((case err of None \<Rightarrow> Returns (Some \<lparr>ProduceResponse.Offset = offset\<rparr>, None)
                 | Some e \<Rightarrow> Returns (None, Some e)),
      \<lparr>trace = trace w @ [EvAppend (ProduceRequest.Record req) offset err], state = s\<rparr>)"
  using assms by (simp add: Produce_def call_defs split: option.split)

lemma Produce_open_no_log:
  assumes "Config.Authorizer this = None" "Config.CommitLog this = None"
  shows "Produce this ctx req w = (Panics, w)"
  using assms by (simp add: Produce_def)

lemma Produce_no_subject:
  assumes "Config.Authorizer this = Some a" "Value ctx = None"
  shows "Produce this ctx req w = (Panics, w)"
  using assms by (simp add: Produce_def subject_def)

lemma Produce_denied:
  assumes "Config.Authorizer this = Some a" "Value ctx = Some sub"
    and "Authorize a sub objectWildcard consumeAction (state w) = (Some e, s)"
  shows "Produce this ctx req w =
     (Returns (None, Some e),
      \<lparr>trace = trace w @ [EvAuthorize sub objectWildcard consumeAction (Some e)], state = s\<rparr>)"
  using assms by (simp add: Produce_def subject_def call_defs)

lemma Produce_allowed_no_log:
  assumes "Config.Authorizer this = Some a" "Value ctx = Some sub"
    and "Authorize a sub objectWildcard consumeAction (state w) = (None, s1)"
    and "Config.CommitLog this = None"
  shows "Produce this ctx req w =
     (Panics, \<lparr>trace = trace w @ [EvAuthorize sub objectWildcard consumeAction None], state = s1\<rparr>)"
  using assms by (simp add: Produce_def subject_def call_defs)

lemma Produce_allowed:
  assumes "Config.Authorizer this = Some a" "Value ctx = Some sub"
    and "Authorize a sub objectWildcard consumeAction (state w) = (None, s1)"
    and "Config.CommitLog this = Some cl"
    and "Append cl (ProduceRequest.Record req) s1 = ((offset, err), s)"
  shows "Produce this ctx req w =
     ((case err of None \<Rightarrow> Returns (Some \<lparr>ProduceResponse.Offset = offset\<rparr>, None)
                 | Some e \<Rightarrow> Returns (None, Some e)),
      \<lparr>trace = trace w @ [EvAuthorize sub objectWildcard consumeAction None,
                          EvAppend (ProduceRequest.Record req) offset err], state = s\<rparr>)"
  using assms by (simp add: Produce_def subject_def call_defs split: option.split)

text \<open>
  Every call of \<open>Produce\<close> takes one of five paths. \<open>au\<close> is what the authorization step
  added to the trace: nothing without an authorizer, one granted \<open>Authorize\<close> call with one.
\<close>

lemma Produce_cases:
  obtains
    (no_subject) "Config.Authorizer this \<noteq> None" "Value ctx = None"
      "Produce this ctx req w = (Panics, w)"
  | (denied) sub e s where
      "Config.Authorizer this \<noteq> None" "Value ctx = Some sub"
      "Produce this ctx req w =
         (Returns (None, Some e),
          \<lparr>trace = trace w @ [EvAuthorize sub objectWildcard consumeAction (Some e)], state = s\<rparr>)"
  | (no_log) au s where
      "Config.CommitLog this = None"
      "Produce this ctx req w = (Panics, \<lparr>trace = trace w @ au, state = s\<rparr>)"
      "au = [] \<or> (\<exists>sub. au = [EvAuthorize sub objectWildcard consumeAction None])"
  | (append_failed) au offset e s where
      "Config.CommitLog this \<noteq> None"
      "Config.Authorizer this = None \<or> Value ctx \<noteq> None"
      "Produce this ctx req w =
         (Returns (None, Some e),
          \<lparr>trace = trace w @ au @ [EvAppend (ProduceRequest.Record req) offset (Some e)], state = s\<rparr>)"
      "au = [] \<or> (\<exists>sub. au = [EvAuthorize sub objectWildcard consumeAction None])"
  | (append_ok) au offset s where
      "Config.CommitLog this \<noteq> None"
      "Config.Authorizer this = None \<or> Value ctx \<noteq> None"
      "Produce this ctx req w =
         (Returns (Some \<lparr>ProduceResponse.Offset = offset\<rparr>, None),
          \<lparr>trace = trace w @ au @ [EvAppend (ProduceRequest.Record req) offset None], state = s\<rparr>)"
      "au = [] \<or> (\<exists>sub. au = [EvAuthorize sub objectWildcard consumeAction None])"
proof (cases "Config.Authorizer this")
  case None
  show ?thesis
  proof (cases "Config.CommitLog this")
    case n: None
    have "Produce this ctx req w = (Panics, \<lparr>trace = trace w @ [], state = state w\<rparr>)"
      using Produce_open_no_log[OF None n] by simp
    then show ?thesis using no_log n by blast
  next
    case (Some cl)
    obtain offset err s where r: "Append cl (ProduceRequest.Record req) (state w) = ((offset, err), s)"
      by (metis surj_pair)
    show ?thesis
    proof (cases err)
      case n: None
      then show ?thesis using Produce_open[OF None Some r, of ctx] None Some
          append_ok[of offset "[]" s] by simp
    next
      case e: (Some e)
      then show ?thesis using Produce_open[OF None Some r, of ctx] None Some
          append_failed[of e "[]" offset s] by simp
    qed
  qed
next
  case (Some a)
  show ?thesis
  proof (cases "Value ctx")
    case None
    then show ?thesis using Produce_no_subject[OF Some] Some no_subject by simp
  next
    case v: (Some sub)
    obtain res s1 where au: "Authorize a sub objectWildcard consumeAction (state w) = (res, s1)"
      by (metis surj_pair)
    show ?thesis
    proof (cases res)
      case e: (Some e)
      then show ?thesis using Produce_denied[OF Some v] au Some v denied by simp
    next
      case None
      note au' = au[unfolded None]
      show ?thesis
      proof (cases "Config.CommitLog this")
        case n: None
        show ?thesis
          using Produce_allowed_no_log[OF Some v au' n, of req] n
            no_log[of "[EvAuthorize sub objectWildcard consumeAction None]" s1] by simp
      next
        case c: (Some cl)
        obtain offset err s where r: "Append cl (ProduceRequest.Record req) s1 = ((offset, err), s)"
          by (metis surj_pair)
        show ?thesis
        proof (cases err)
          case n: None
          then show ?thesis using Produce_allowed[OF Some v au' c r] c v
              append_ok[of offset "[EvAuthorize sub objectWildcard consumeAction None]" s] by simp
        next
          case e: (Some e)
          then show ?thesis using Produce_allowed[OF Some v au' c r] c v
              append_failed[of e "[EvAuthorize sub objectWildcard consumeAction None]" offset s] by simp
        qed
      qed
    qed
  qed
qed

subsection \<open>The paths through Consume\<close>

lemma Consume_open:
  assumes "Config.Authorizer this = None" "Config.CommitLog this = Some cl"
    and "Read cl (ConsumeRequest.Offset req) (state w) = ((rcd, err), s)"
  shows "Consume this ctx req w =
     ((case err of None \<Rightarrow> Returns (Some \<lparr>ConsumeResponse.Record = rcd\<rparr>, None)
                 | Some e \<Rightarrow> Returns (None, Some e)),
      \<lparr>trace = trace w @ [EvRead (ConsumeRequest.Offset req) rcd err], state = s\<rparr>)"
  using assms by (simp add: Consume_def call_defs split: option.split)

lemma Consume_open_no_log:
  assumes "Config.Authorizer this = None" "Config.CommitLog this = None"
  shows "Consume this ctx req w = (Panics, w)"
  using assms by (simp add: Consume_def)

lemma Consume_no_subject:
  assumes "Config.Authorizer this = Some a" "Value ctx = None"
  shows "Consume this ctx req w = (Panics, w)"
  using assms by (simp add: Consume_def subject_def)

lemma Consume_denied:
  assumes "Config.Authorizer this = Some a" "Value ctx = Some sub"
    and "Authorize a sub objectWildcard consumeAction (state w) = (Some e, s)"
  shows "Consume this ctx req w =
     (Returns (None, Some e),
      \<lparr>trace = trace w @ [EvAuthorize sub objectWildcard consumeAction (Some e)], state = s\<rparr>)"
  using assms by (simp add: Consume_def subject_def call_defs)

lemma Consume_allowed_no_log:
  assumes "Config.Authorizer this = Some a" "Value ctx = Some sub"
    and "Authorize a sub objectWildcard consumeAction (state w) = (None, s1)"
    and "Config.CommitLog this = None"
  shows "Consume this ctx req w =
     (Panics, \<lparr>trace = trace w @ [EvAuthorize sub objectWildcard consumeAction None], state = s1\<rparr>)"
  using assms by (simp add: Consume_def subject_def call_defs)

lemma Consume_allowed:
  assumes "Config.Authorizer this = Some a" "Value ctx = Some sub"
    and "Authorize a sub objectWildcard consumeAction (state w) = (None, s1)"
    and "Config.CommitLog this = Some cl"
    and "Read cl (ConsumeRequest.Offset req) s1 = ((rcd, err), s)"
  shows "Consume this ctx req w =
     ((case err of None \<Rightarrow> Returns (Some \<lparr>ConsumeResponse.Record = rcd\<rparr>, None)
                 | Some e \<Rightarrow> Returns (None, Some e)),
      \<lparr>trace = trace w @ [EvAuthorize sub objectWildcard consumeAction None,
                          EvRead (ConsumeRequest.Offset req) rcd err], state = s\<rparr>)"
  using assms by (simp add: Consume_def subject_def call_defs split: option.split)

lemma Consume_cases:
  obtains
    (no_subject) "Config.Authorizer this \<noteq> None" "Value ctx = None"
      "Consume this ctx req w = (Panics, w)"
  | (denied) sub e s where
      "Config.Authorizer this \<noteq> None" "Value ctx = Some sub"
      "Consume this ctx req w =
         (Returns (None, Some e),
          \<lparr>trace = trace w @ [EvAuthorize sub objectWildcard consumeAction (Some e)], state = s\<rparr>)"
  | (no_log) au s where
      "Config.CommitLog this = None"
      "Consume this ctx req w = (Panics, \<lparr>trace = trace w @ au, state = s\<rparr>)"
      "au = [] \<or> (\<exists>sub. au = [EvAuthorize sub objectWildcard consumeAction None])"
  | (read_failed) au rcd e s where
      "Config.CommitLog this \<noteq> None"
      "Config.Authorizer this = None \<or> Value ctx \<noteq> None"
      "Consume this ctx req w =
         (Returns (None, Some e),
          \<lparr>trace = trace w @ au @ [EvRead (ConsumeRequest.Offset req) rcd (Some e)], state = s\<rparr>)"
      "au = [] \<or> (\<exists>sub. au = [EvAuthorize sub objectWildcard consumeAction None])"
  | (read_ok) au rcd s where
      "Config.CommitLog this \<noteq> None"
      "Config.Authorizer this = None \<or> Value ctx \<noteq> None"
      "Consume this ctx req w =
         (Returns (Some \<lparr>ConsumeResponse.Record = rcd\<rparr>, None),
          \<lparr>trace = trace w @ au @ [EvRead (ConsumeRequest.Offset req) rcd None], state = s\<rparr>)"
      "au = [] \<or> (\<exists>sub. au = [EvAuthorize sub objectWildcard consumeAction None])"
proof (cases "Config.Authorizer this")
  case None
  show ?thesis
  proof (cases "Config.CommitLog this")
    case n: None
    have "Consume this ctx req w = (Panics, \<lparr>trace = trace w @ [], state = state w\<rparr>)"
      using Consume_open_no_log[OF None n] by simp
    then show ?thesis using no_log n by blast
  next
    case (Some cl)
    obtain rcd err s where r: "Read cl (ConsumeRequest.Offset req) (state w) = ((rcd, err), s)"
      by (metis surj_pair)
    show ?thesis
    proof (cases err)
      case n: None
      then show ?thesis using Consume_open[OF None Some r, of ctx] None Some
          read_ok[of rcd "[]" s] by simp
    next
      case e: (Some e)
      then show ?thesis using Consume_open[OF None Some r, of ctx] None Some
          read_failed[of e "[]" rcd s] by simp
    qed
  qed
next
  case (Some a)
  show ?thesis
  proof (cases "Value ctx")
    case None
    then show ?thesis using Consume_no_subject[OF Some] Some no_subject by simp
  next
    case v: (Some sub)
    obtain res s1 where au: "Authorize a sub objectWildcard consumeAction (state w) = (res, s1)"
      by (metis surj_pair)
    show ?thesis
    proof (cases res)
      case e: (Some e)
      then show ?thesis using Consume_denied[OF Some v] au Some v denied by simp
    next
      case None
      note au' = au[unfolded None]
      show ?thesis
      proof (cases "Config.CommitLog this")
        case n: None
        show ?thesis
          using Consume_allowed_no_log[OF Some v au' n, of req] n
            no_log[of "[EvAuthorize sub objectWildcard consumeAction None]" s1] by simp
      next
        case c: (Some cl)
        obtain rcd err s where r: "Read cl (ConsumeRequest.Offset req) s1 = ((rcd, err), s)"
          by (metis surj_pair)
        show ?thesis
        proof (cases err)
          case n: None
          then show ?thesis using Consume_allowed[OF Some v au' c r] c v
              read_ok[of rcd "[EvAuthorize sub objectWildcard consumeAction None]" s] by simp
        next
          case e: (Some e)
          then show ?thesis using Consume_allowed[OF Some v au' c r] c v
              read_failed[of e "[EvAuthorize sub objectWildcard consumeAction None]" rcd s] by simp
        qed
      qed
    qed
  qed
qed

subsection \<open>Unary handlers\<close>

text \<open>
  Claim C8. \<open>GetServers\<close> asks the discovery handler once. When the query succeeds the
  response holds exactly the list it returned (the same servers in the same order, each a
  triple of id, address and leader flag) and the error is \<open>nil\<close>; when the query fails the
  response is \<open>nil\<close> and the error is the query's error, unchanged.
\<close>

theorem GetServers_verbatim:
  assumes "Config.ServerGetter s = Some sg"
    and "ServerGetter.GetServers sg (state w) = ((servers, err), st)"
  shows "GetServers s ctx req w =
           ((case err of
               None \<Rightarrow> Returns (Some \<lparr>Servers = servers\<rparr>, None)
             | Some e \<Rightarrow> Returns (None, Some e)),
            \<lparr>trace = trace w @ [EvGetServers servers err], state = st\<rparr>)"
  using assms by (simp add: GetServers_def call_defs split: option.split)

theorem GetServers_verbatim_witness:
  "Config.ServerGetter secured = Some cluster
   \<and> ServerGetter.GetServers cluster (state w0) = ((members, None), threeRecords)
   \<and> GetServers secured asRoot () w0 =
       (Returns (Some \<lparr>Servers = members\<rparr>, None),
        \<lparr>trace = [EvGetServers members None], state = threeRecords\<rparr>)
   \<and> Config.ServerGetter (secured\<lparr>ServerGetter := Some unreachable\<rparr>) = Some unreachable
   \<and> ServerGetter.GetServers unreachable (state w0) =
       (([], Some (OtherError ''no leader'')), threeRecords)
   \<and> GetServers (secured\<lparr>ServerGetter := Some unreachable\<rparr>) asRoot () w0 =
       (Returns (None, Some (OtherError ''no leader'')),
        \<lparr>trace = [EvGetServers [] (Some (OtherError ''no leader''))], state = threeRecords\<rparr>)"
proof -
  have h1: "Config.ServerGetter secured = Some cluster"
    by (simp add: secured_def)
  have h2: "ServerGetter.GetServers cluster (state w0) = ((members, None), threeRecords)"
    by (simp add: cluster_def w0_def)
  have h3: "Config.ServerGetter (secured\<lparr>ServerGetter := Some unreachable\<rparr>) = Some unreachable"
    by simp
  have h4: "ServerGetter.GetServers unreachable (state w0) =
       (([], Some (OtherError ''no leader'')), threeRecords)"
    by (simp add: unreachable_def w0_def)
  show ?thesis
    using h1 h2 h3 h4 GetServers_verbatim[OF h1 h2, of asRoot "()"]
      GetServers_verbatim[OF h3 h4, of asRoot "()"]
    by (simp add: w0_def)
qed



text \<open>
  Claim C4. Whenever \<open>Append\<close> returns an error to \<open>Produce\<close>, or \<open>Read\<close> returns an error to
  \<open>Consume\<close>, the handler returns a \<open>nil\<close> response together with that very error value.
\<close>

theorem CommitLog_error_verbatim:
  "(Produce this ctx preq w = (pout, wp) \<and> EvAppend r offset (Some err) \<in> set (new_events w wp)
      \<longrightarrow> pout = Returns (None, Some err))
   \<and> (Consume this' ctx' creq w' = (cout, wc) \<and> EvRead off rcd (Some err') \<in> set (new_events w' wc)
      \<longrightarrow> cout = Returns (None, Some err'))"
proof (intro conjI impI)
  assume a: "Produce this ctx preq w = (pout, wp) \<and> EvAppend r offset (Some err) \<in> set (new_events w wp)"
  show "pout = Returns (None, Some err)"
    by (cases rule: Produce_cases[of "this" ctx preq w]) (use a in \<open>auto simp: new_events_def\<close>)
next
  assume a: "Consume this' ctx' creq w' = (cout, wc) \<and> EvRead off rcd (Some err') \<in> set (new_events w' wc)"
  show "cout = Returns (None, Some err')"
    by (cases rule: Consume_cases[of this' ctx' creq w']) (use a in \<open>auto simp: new_events_def\<close>)
qed

theorem CommitLog_error_verbatim_witness:
  "(Produce unsecured asRoot \<lparr>ProduceRequest.Record = None\<rparr> w0 =
      (Returns (None, Some (OtherError ''nil record'')),
       \<lparr>trace = [EvAppend None 0 (Some (OtherError ''nil record''))], state = threeRecords\<rparr>)
    \<and> EvAppend None 0 (Some (OtherError ''nil record''))
        \<in> set (new_events w0
             \<lparr>trace = [EvAppend None 0 (Some (OtherError ''nil record''))], state = threeRecords\<rparr>))
   \<and> (Consume secured asRoot \<lparr>ConsumeRequest.Offset = 5\<rparr> w0 =
      (Returns (None, Some (ErrOffsetOutOfRange ''offset out of range'')),
       \<lparr>trace = [EvAuthorize ''root'' ''*'' ''consume'' None,
                 EvRead 5 None (Some (ErrOffsetOutOfRange ''offset out of range''))],
        state = threeRecords\<rparr>)
    \<and> EvRead 5 None (Some (ErrOffsetOutOfRange ''offset out of range''))
        \<in> set (new_events w0
             \<lparr>trace = [EvAuthorize ''root'' ''*'' ''consume'' None,
                       EvRead 5 None (Some (ErrOffsetOutOfRange ''offset out of range''))],
              state = threeRecords\<rparr>))"
proof -
  have h1: "Produce unsecured asRoot \<lparr>ProduceRequest.Record = None\<rparr> w0 =
      (Returns (None, Some (OtherError ''nil record'')),
       \<lparr>trace = [EvAppend None 0 (Some (OtherError ''nil record''))], state = threeRecords\<rparr>)
    \<and> EvAppend None 0 (Some (OtherError ''nil record''))
        \<in> set (new_events w0
             \<lparr>trace = [EvAppend None 0 (Some (OtherError ''nil record''))], state = threeRecords\<rparr>)"
    by (simp add: Produce_def subject_def call_defs mem_defs new_events_def)
  have h2: "Consume secured asRoot \<lparr>ConsumeRequest.Offset = 5\<rparr> w0 =
      (Returns (None, Some (ErrOffsetOutOfRange ''offset out of range'')),
       \<lparr>trace = [EvAuthorize ''root'' ''*'' ''consume'' None,
                 EvRead 5 None (Some (ErrOffsetOutOfRange ''offset out of range''))],
        state = threeRecords\<rparr>)
    \<and> EvRead 5 None (Some (ErrOffsetOutOfRange ''offset out of range''))
        \<in> set (new_events w0
             \<lparr>trace = [EvAuthorize ''root'' ''*'' ''consume'' None,
                       EvRead 5 None (Some (ErrOffsetOutOfRange ''offset out of range''))],
              state = threeRecords\<rparr>)"
    by (simp add: Consume_def subject_def call_defs mem_defs new_events_def)
  show ?thesis
    using h1 h2
      CommitLog_error_verbatim[of unsecured asRoot "\<lparr>ProduceRequest.Record = None\<rparr>" w0
        "Returns (None, Some (OtherError ''nil record''))"
        "\<lparr>trace = [EvAppend None 0 (Some (OtherError ''nil record''))], state = threeRecords\<rparr>"
        None 0 "OtherError ''nil record''"
        secured asRoot "\<lparr>ConsumeRequest.Offset = 5\<rparr>" w0
        "Returns (None, Some (ErrOffsetOutOfRange ''offset out of range''))"
        "\<lparr>trace = [EvAuthorize ''root'' ''*'' ''consume'' None,
                 EvRead 5 None (Some (ErrOffsetOutOfRange ''offset out of range''))],
        state = threeRecords\<rparr>"
        5 None "ErrOffsetOutOfRange ''offset out of range''"]
    by blast
qed

text \<open>
  Claim C6. With an authorizer configured and an identified caller, the first thing
  \<open>Produce\<close> and \<open>Consume\<close> do is call \<open>Authorize\<close>. If it returns an error, the handler
  returns that error with no response, the trace holds the \<open>Authorize\<close> call and nothing
  else (neither \<open>Append\<close> nor \<open>Read\<close> is called), and the world is as \<open>Authorize\<close> left it. If
  it returns no error the handler goes on to the commit log, whoever the caller is: the
  decision is the authorizer's alone.
\<close>

theorem Authorize_before_CommitLog:
  assumes "Config.Authorizer this = Some a"
    and "Value ctx = Some sub"
    and "Authorize a sub objectWildcard consumeAction (state w) = (res, s1)"
    and "Produce this ctx preq w = (pout, wp)"
    and "Consume this ctx creq w = (cout, wc)"
  shows "(\<exists>rest. new_events w wp = EvAuthorize sub objectWildcard consumeAction res # rest)
       \<and> (\<exists>rest. new_events w wc = EvAuthorize sub objectWildcard consumeAction res # rest)
       \<and> (\<forall>err. res = Some err \<longrightarrow>
             pout = Returns (None, Some err) \<and> cout = Returns (None, Some err)
             \<and> wp = \<lparr>trace = trace w @ [EvAuthorize sub objectWildcard consumeAction res], state = s1\<rparr>
             \<and> wc = wp)
       \<and> (\<forall>cl. res = None \<and> Config.CommitLog this = Some cl \<longrightarrow>
             (\<exists>offset err. new_events w wp =
                [EvAuthorize sub objectWildcard consumeAction None,
                 EvAppend (ProduceRequest.Record preq) offset err])
             \<and> (\<exists>rcd err. new_events w wc =
                [EvAuthorize sub objectWildcard consumeAction None,
                 EvRead (ConsumeRequest.Offset creq) rcd err]))"
proof (cases res)
  case (Some e)
  show ?thesis
    using Produce_denied[OF assms(1,2) assms(3)[unfolded Some], of preq]
      Consume_denied[OF assms(1,2) assms(3)[unfolded Some], of creq] assms(4,5) Some
    by (simp add: new_events_def)
next
  case None
  note au = assms(3)[unfolded None]
  show ?thesis
  proof (cases "Config.CommitLog this")
    case n: None
    show ?thesis
      using Produce_allowed_no_log[OF assms(1,2) au n, of preq]
        Consume_allowed_no_log[OF assms(1,2) au n, of creq] assms(4,5) None n
      by (simp add: new_events_def)
  next
    case (Some cl)
    obtain offset err s where ap: "Append cl (ProduceRequest.Record preq) s1 = ((offset, err), s)"
      by (metis surj_pair)
    obtain rcd err' s' where rd: "Read cl (ConsumeRequest.Offset creq) s1 = ((rcd, err'), s')"
      by (metis surj_pair)
    show ?thesis
      using Produce_allowed[OF assms(1,2) au Some ap] Consume_allowed[OF assms(1,2) au Some rd]
        assms(4,5) None Some
      by (simp add: new_events_def)
  qed
qed

theorem Authorize_before_CommitLog_witness:
  "Config.Authorizer secured = Some acl
   \<and> Value asNobody = Some ''nobody''
   \<and> Authorize acl ''nobody'' objectWildcard consumeAction (state w0) =
       (Some (OtherError ''permission denied''), threeRecords)
   \<and> Produce secured asNobody \<lparr>ProduceRequest.Record = Some ''msg-3''\<rparr> w0 =
       (Returns (None, Some (OtherError ''permission denied'')),
        \<lparr>trace = [EvAuthorize ''nobody'' objectWildcard consumeAction
                    (Some (OtherError ''permission denied''))],
         state = threeRecords\<rparr>)
   \<and> Consume secured asNobody \<lparr>ConsumeRequest.Offset = 0\<rparr> w0 =
       (Returns (None, Some (OtherError ''permission denied'')),
        \<lparr>trace = [EvAuthorize ''nobody'' objectWildcard consumeAction
                    (Some (OtherError ''permission denied''))],
         state = threeRecords\<rparr>)
   \<and> Value asRoot = Some ''root''
   \<and> Authorize acl ''root'' objectWildcard consumeAction (state w0) = (None, threeRecords)
   \<and> Config.CommitLog secured = Some memLog
   \<and> (\<exists>offset err.
         new_events w0 (snd (Produce secured asRoot \<lparr>ProduceRequest.Record = Some ''msg-3''\<rparr> w0)) =
           [EvAuthorize ''root'' objectWildcard consumeAction None,
            EvAppend (Some ''msg-3'') offset err])
   \<and> (\<exists>rcd err.
         new_events w0 (snd (Consume secured asRoot \<lparr>ConsumeRequest.Offset = 0\<rparr> w0)) =
           [EvAuthorize ''root'' objectWildcard consumeAction None, EvRead 0 rcd err])"
proof -
  have h1: "Config.Authorizer secured = Some acl"
    by (simp add: secured_def)
  have h2: "Value asNobody = Some ''nobody''"
    by (simp add: asNobody_def)
  have h3: "Authorize acl ''nobody'' objectWildcard consumeAction (state w0) =
       (Some (OtherError ''permission denied''), threeRecords)"
    by (simp add: acl_def w0_def)
  have h4: "Produce secured asNobody \<lparr>ProduceRequest.Record = Some ''msg-3''\<rparr> w0 =
       (fst (Produce secured asNobody \<lparr>ProduceRequest.Record = Some ''msg-3''\<rparr> w0),
        snd (Produce secured asNobody \<lparr>ProduceRequest.Record = Some ''msg-3''\<rparr> w0))"
    by simp
  have h5: "Consume secured asNobody \<lparr>ConsumeRequest.Offset = 0\<rparr> w0 =
       (fst (Consume secured asNobody \<lparr>ConsumeRequest.Offset = 0\<rparr> w0),
        snd (Consume secured asNobody \<lparr>ConsumeRequest.Offset = 0\<rparr> w0))"
    by simp
  have g2: "Value asRoot = Some ''root''"
    by (simp add: asRoot_def)
  have g3: "Authorize acl ''root'' objectWildcard consumeAction (state w0) = (None, threeRecords)"
    by (simp add: acl_def w0_def)
  have g4: "Produce secured asRoot \<lparr>ProduceRequest.Record = Some ''msg-3''\<rparr> w0 =
       (fst (Produce secured asRoot \<lparr>ProduceRequest.Record = Some ''msg-3''\<rparr> w0),
        snd (Produce secured asRoot \<lparr>ProduceRequest.Record = Some ''msg-3''\<rparr> w0))"
    by simp
  have g5: "Consume secured asRoot \<lparr>ConsumeRequest.Offset = 0\<rparr> w0 =
       (fst (Consume secured asRoot \<lparr>ConsumeRequest.Offset = 0\<rparr> w0),
        snd (Consume secured asRoot \<lparr>ConsumeRequest.Offset = 0\<rparr> w0))"
    by simp
  have g6: "Config.CommitLog secured = Some memLog"
    by (simp add: secured_def)
  show ?thesis
    using h1 h2 h3 g2 g3 g6
      Authorize_before_CommitLog[OF h1 h2 h3 h4 h5]
      Authorize_before_CommitLog[OF h1 g2 g3 g4 g5]
    by (simp add: w0_def prod_eq_iff)
qed



subsection \<open>Consume is a read\<close>

lemma Consume_state_only:
  assumes "state w1 = state w2"
  shows "fst (Consume this ctx req w1) = fst (Consume this ctx req w2)
       \<and> state (snd (Consume this ctx req w1)) = state (snd (Consume this ctx req w2))"
proof (cases "Config.Authorizer this")
  case None
  show ?thesis
  proof (cases "Config.CommitLog this")
    case n: None
    show ?thesis using Consume_open_no_log[OF None n] assms by simp
  next
    case (Some cl)
    obtain rcd err s where r: "Read cl (ConsumeRequest.Offset req) (state w1) = ((rcd, err), s)"
      by (metis surj_pair)
    show ?thesis
      using Consume_open[OF None Some r] Consume_open[OF None Some r[unfolded assms]] by simp
  qed
next
  case (Some a)
  show ?thesis
  proof (cases "Value ctx")
    case None
    show ?thesis using Consume_no_subject[OF Some None] assms by simp
  next
    case v: (Some sub)
    obtain res s1 where au: "Authorize a sub objectWildcard consumeAction (state w1) = (res, s1)"
      by (metis surj_pair)
    show ?thesis
    proof (cases res)
      case e: (Some e)
      show ?thesis
        using Consume_denied[OF Some v au[unfolded e]]
          Consume_denied[OF Some v au[unfolded e assms]] by simp
    next
      case None
      show ?thesis
      proof (cases "Config.CommitLog this")
        case n: None
        show ?thesis
          using Consume_allowed_no_log[OF Some v au[unfolded None] n]
            Consume_allowed_no_log[OF Some v au[unfolded None assms] n] by simp
      next
        case c: (Some cl)
        obtain rcd err s where r: "Read cl (ConsumeRequest.Offset req) s1 = ((rcd, err), s)"
          by (metis surj_pair)
        show ?thesis
          using Consume_allowed[OF Some v au[unfolded None] c r]
            Consume_allowed[OF Some v au[unfolded None assms] c r] by simp
      qed
    qed
  qed
qed

lemma Consume_no_Append:
  assumes "Consume this ctx req w = (out, w')"
  shows "\<exists>evs. trace w' = trace w @ evs \<and> (\<forall>ev\<in>set evs. \<not> is_Append ev)"
  by (cases rule: Consume_cases[of "this" ctx req w]) (use assms in auto)

lemma Consume_pure_state:
  assumes "\<forall>cl off s. Config.CommitLog this = Some cl \<longrightarrow> snd (Read cl off s) = s"
    and "\<forall>a sub obj act s. Config.Authorizer this = Some a \<longrightarrow> snd (Authorize a sub obj act s) = s"
  shows "state (snd (Consume this ctx req w)) = state w"
proof (cases "Config.Authorizer this")
  case None
  show ?thesis
  proof (cases "Config.CommitLog this")
    case n: None
    show ?thesis using Consume_open_no_log[OF None n] by simp
  next
    case (Some cl)
    obtain rcd err s where r: "Read cl (ConsumeRequest.Offset req) (state w) = ((rcd, err), s)"
      by (metis surj_pair)
    have "s = state w" using assms(1) Some r by (metis snd_conv)
    then show ?thesis using Consume_open[OF None Some r] by simp
  qed
next
  case (Some a)
  show ?thesis
  proof (cases "Value ctx")
    case None
    show ?thesis using Consume_no_subject[OF Some None] by simp
  next
    case v: (Some sub)
    obtain res s1 where au: "Authorize a sub objectWildcard consumeAction (state w) = (res, s1)"
      by (metis surj_pair)
    have s1: "s1 = state w" using assms(2) Some au by (metis snd_conv)
    show ?thesis
    proof (cases res)
      case e: (Some e)
      show ?thesis using Consume_denied[OF Some v au[unfolded e]] s1 by simp
    next
      case None
      show ?thesis
      proof (cases "Config.CommitLog this")
        case n: None
        show ?thesis using Consume_allowed_no_log[OF Some v au[unfolded None] n] s1 by simp
      next
        case c: (Some cl)
        obtain rcd err s where r: "Read cl (ConsumeRequest.Offset req) s1 = ((rcd, err), s)"
          by (metis surj_pair)
        have "s = s1" using assms(1) c r by (metis snd_conv)
        then show ?thesis using Consume_allowed[OF Some v au[unfolded None] c r] s1 by simp
      qed
    qed
  qed
qed

lemma Consume_repeated_no_Append:
  "Consume_repeated n this ctx req w = (outs, w') \<Longrightarrow>
     \<exists>evs. trace w' = trace w @ evs \<and> (\<forall>ev\<in>set evs. \<not> is_Append ev)"
proof (induction n arbitrary: w outs w')
  case 0
  then show ?case by simp
next
  case (Suc n)
  obtain out w1 where c: "Consume this ctx req w = (out, w1)" by (cases "Consume this ctx req w")
  obtain outs2 w2 where r: "Consume_repeated n this ctx req w1 = (outs2, w2)"
    by (cases "Consume_repeated n this ctx req w1")
  from Suc.prems c r have w': "w' = w2" by simp
  from Consume_no_Append[OF c] obtain evs1 where
    e1: "trace w1 = trace w @ evs1" "\<forall>ev\<in>set evs1. \<not> is_Append ev" by blast
  from Suc.IH[OF r] obtain evs2 where
    e2: "trace w2 = trace w1 @ evs2" "\<forall>ev\<in>set evs2. \<not> is_Append ev" by blast
  have "trace w' = trace w @ (evs1 @ evs2)" using w' e1 e2 by simp
  moreover have "\<forall>ev\<in>set (evs1 @ evs2). \<not> is_Append ev" using e1 e2 by auto
  ultimately show ?case by blast
qed

lemma Consume_repeated_pure:
  assumes "\<forall>cl off s. Config.CommitLog this = Some cl \<longrightarrow> snd (Read cl off s) = s"
    and "\<forall>a sub obj act s. Config.Authorizer this = Some a \<longrightarrow> snd (Authorize a sub obj act s) = s"
  shows "Consume_repeated n this ctx req w = (outs, w') \<Longrightarrow>
     state w' = state w \<and> outs = replicate n (fst (Consume this ctx req w))"
proof (induction n arbitrary: w outs w')
  case 0
  then show ?case by simp
next
  case (Suc n)
  obtain out w1 where c: "Consume this ctx req w = (out, w1)" by (cases "Consume this ctx req w")
  obtain outs2 w2 where r: "Consume_repeated n this ctx req w1 = (outs2, w2)"
    by (cases "Consume_repeated n this ctx req w1")
  from Suc.prems c r have w': "w' = w2" "outs = out # outs2" by simp_all
  have s1: "state w1 = state w" using Consume_pure_state[OF assms, of ctx req w] c by simp
  from Suc.IH[OF r] have ih: "state w2 = state w1"
    "outs2 = replicate n (fst (Consume this ctx req w1))" by simp_all
  have "fst (Consume this ctx req w1) = fst (Consume this ctx req w)"
    using Consume_state_only[OF s1] by simp
  then show ?case using w' s1 ih c by simp
qed

text \<open>
  Claim C7. However often a \<open>Consume\<close> request is repeated, the handler never calls
  \<open>Append\<close>: its only commit-log call is \<open>Read\<close>. So when \<open>Read\<close> and \<open>Authorize\<close> leave the
  state as they found it, the state after the repetitions is the state before, and every
  repetition returns what the first one returned.
\<close>

theorem Consume_read_only:
  assumes "Consume_repeated n this ctx req w = (outs, w')"
  shows "(\<forall>ev\<in>set (new_events w w'). \<not> is_Append ev)
       \<and> ((\<forall>cl off s. Config.CommitLog this = Some cl \<longrightarrow> snd (Read cl off s) = s)
          \<and> (\<forall>a sub obj act s. Config.Authorizer this = Some a \<longrightarrow>
                snd (Authorize a sub obj act s) = s)
          \<longrightarrow> state w' = state w \<and> outs = replicate n (fst (Consume this ctx req w)))"
proof -
  from Consume_repeated_no_Append[OF assms] obtain evs where
    "trace w' = trace w @ evs" "\<forall>ev\<in>set evs. \<not> is_Append ev" by blast
  then have "\<forall>ev\<in>set (new_events w w'). \<not> is_Append ev" by (simp add: new_events_def)
  then show ?thesis using Consume_repeated_pure[OF _ _ assms] by blast
qed

theorem Consume_read_only_witness:
  "Consume_repeated 3 secured asRoot \<lparr>ConsumeRequest.Offset = 1\<rparr> w0 =
     ([Returns (Some \<lparr>ConsumeResponse.Record = Some ''msg-1''\<rparr>, None),
       Returns (Some \<lparr>ConsumeResponse.Record = Some ''msg-1''\<rparr>, None),
       Returns (Some \<lparr>ConsumeResponse.Record = Some ''msg-1''\<rparr>, None)],
      \<lparr>trace = [EvAuthorize ''root'' ''*'' ''consume'' None, EvRead 1 (Some ''msg-1'') None,
                EvAuthorize ''root'' ''*'' ''consume'' None, EvRead 1 (Some ''msg-1'') None,
                EvAuthorize ''root'' ''*'' ''consume'' None, EvRead 1 (Some ''msg-1'') None],
       state = threeRecords\<rparr>)
   \<and> Config.CommitLog secured = Some memLog
   \<and> (\<forall>off s. snd (Read memLog off s) = s)
   \<and> Config.Authorizer secured = Some acl
   \<and> (\<forall>sub obj act s. snd (Authorize acl sub obj act s) = s)
   \<and> filter is_Append (new_events w0
          \<lparr>trace = [EvAuthorize ''root'' ''*'' ''consume'' None, EvRead 1 (Some ''msg-1'') None,
                    EvAuthorize ''root'' ''*'' ''consume'' None, EvRead 1 (Some ''msg-1'') None,
                    EvAuthorize ''root'' ''*'' ''consume'' None, EvRead 1 (Some ''msg-1'') None],
           state = threeRecords\<rparr>) = []
   \<and> fst (Consume secured asRoot \<lparr>ConsumeRequest.Offset = 1\<rparr> w0) =
       Returns (Some \<lparr>ConsumeResponse.Record = Some ''msg-1''\<rparr>, None)"
proof -
  have h1: "Consume_repeated 3 secured asRoot \<lparr>ConsumeRequest.Offset = 1\<rparr> w0 =
     ([Returns (Some \<lparr>ConsumeResponse.Record = Some ''msg-1''\<rparr>, None),
       Returns (Some \<lparr>ConsumeResponse.Record = Some ''msg-1''\<rparr>, None),
       Returns (Some \<lparr>ConsumeResponse.Record = Some ''msg-1''\<rparr>, None)],
      \<lparr>trace = [EvAuthorize ''root'' ''*'' ''consume'' None, EvRead 1 (Some ''msg-1'') None,
                EvAuthorize ''root'' ''*'' ''consume'' None, EvRead 1 (Some ''msg-1'') None,
                EvAuthorize ''root'' ''*'' ''consume'' None, EvRead 1 (Some ''msg-1'') None],
       state = threeRecords\<rparr>)"
    by (simp add: Consume_repeated_numeral Consume_def subject_def call_defs mem_defs)
  have c: "Config.CommitLog secured = Some memLog" "Config.Authorizer secured = Some acl"
    by (simp_all add: secured_def)
  have r: "\<forall>off s. snd (Read memLog off s) = s"
    by (simp add: memLog_def)
  have a: "\<forall>sub obj act s. snd (Authorize acl sub obj act s) = s"
    by (simp add: acl_def)
  have h2: "\<forall>cl off s. Config.CommitLog secured = Some cl \<longrightarrow> snd (Read cl off s) = s"
    using c r by simp
  have h3: "\<forall>a sub obj act s. Config.Authorizer secured = Some a \<longrightarrow>
      snd (Authorize a sub obj act s) = s"
    using c a by simp
  show ?thesis
    using h1 c r a h2 h3 Consume_read_only[OF h1]
    by (simp add: numeral_3_eq_3 filter_empty_conv)
qed

subsection \<open>Traces of the stream handlers\<close>

lemma authorized_actions_append:
  "authorized_actions (xs @ ys) = authorized_actions xs @ authorized_actions ys"
  by (induction xs rule: authorized_actions.induct) simp_all

lemma read_offsets_append: "read_offsets (xs @ ys) = read_offsets xs @ read_offsets ys"
  by (induction xs rule: read_offsets.induct) simp_all

lemma successful_reads_append:
  "successful_reads (xs @ ys) = successful_reads xs @ successful_reads ys"
  by (induction xs rule: successful_reads.induct) simp_all

lemma sent_responses_append: "sent_responses (xs @ ys) = sent_responses xs @ sent_responses ys"
  by (induction xs rule: sent_responses.induct) simp_all

lemma done_checks_append: "done_checks (xs @ ys) = done_checks xs @ done_checks ys"
  by (induction xs rule: done_checks.induct) simp_all

lemma sent_ok_append: "sent_ok (xs @ ys) = sent_ok xs + sent_ok ys"
  by (simp add: sent_ok_def sent_responses_append)

lemma reads_at_append:
  assumes "reads_at k xs" and "reads_at (k + of_nat (sent_ok xs)) ys"
  shows "reads_at k (xs @ ys)"
  unfolding reads_at_def
proof (intro allI impI)
  fix i off rcd err
  assume i: "i < length (xs @ ys)" and ev: "(xs @ ys) ! i = EvRead off rcd err"
  show "off = k + of_nat (sent_ok (take i (xs @ ys)))"
  proof (cases "i < length xs")
    case True
    then show ?thesis using assms(1) ev by (simp add: reads_at_def nth_append)
  next
    case False
    then have "ys ! (i - length xs) = EvRead off rcd err" "i - length xs < length ys"
      using i ev by (simp_all add: nth_append)
    then have "off = k + of_nat (sent_ok xs) + of_nat (sent_ok (take (i - length xs) ys))"
      using assms(2) by (simp add: reads_at_def)
    then show ?thesis using False by (simp add: sent_ok_append add.assoc)
  qed
qed

lemma consecutive_shift:
  "k # map (\<lambda>i. k + 1 + of_nat i) [0..<m] = map (\<lambda>i. (k::uint64) + of_nat i) [0..<Suc m]"
proof -
  have "[0..<Suc m] = 0 # map Suc [0..<m]"
    by (simp add: upt_conv_Cons map_Suc_upt del: upt_Suc)
  then have "map (\<lambda>i. k + of_nat i) [0..<Suc m] = k # map (\<lambda>i. k + of_nat (Suc i)) [0..<m]"
    by (simp add: comp_def del: upt_Suc)
  then show ?thesis by (simp add: add.assoc del: upt_Suc)
qed

text \<open>What one call of \<open>Consume\<close> and of \<open>Produce\<close> adds to the trace.\<close>

lemma Consume_events:
  assumes "Consume this ctx req w = (out, w')"
  shows "\<exists>evs. trace w' = trace w @ evs
     \<and> done_checks evs = [] \<and> sent_responses evs = []
     \<and> set (authorized_actions evs) \<subseteq> {consumeAction}
     \<and> set (read_offsets evs) \<subseteq> {ConsumeRequest.Offset req}"
  by (cases rule: Consume_cases[of "this" ctx req w]) (use assms in auto)

lemma Produce_events:
  assumes "Produce this ctx req w = (out, w')"
  shows "\<exists>evs. trace w' = trace w @ evs \<and> set (authorized_actions evs) \<subseteq> {consumeAction}"
  by (cases rule: Produce_cases[of "this" ctx req w]) (use assms in auto)

lemma ConsumeStream_body_events:
  assumes "ConsumeStream_body this req stream w = (r, req1, w1)"
  shows "\<exists>evs. trace w1 = trace w @ evs
     \<and> ConsumeRequest.Offset req1 = ConsumeRequest.Offset req + of_nat (sent_ok evs)
     \<and> reads_at (ConsumeRequest.Offset req) evs
     \<and> map fst (sent_responses evs) =
         map (\<lambda>(off, rcd). Some \<lparr>ConsumeResponse.Record = rcd\<rparr>) (successful_reads evs)
     \<and> (successful_reads evs = [] \<or> (\<exists>rcd. successful_reads evs = [(ConsumeRequest.Offset req, rcd)]))
     \<and> (r = Next \<longrightarrow> sent_ok evs = length (successful_reads evs))
     \<and> set (authorized_actions evs) \<subseteq> {consumeAction}
     \<and> (r = Exit (Returns None) \<longrightarrow>
          evs = [EvDone True] \<and> Done (Log_ConsumeStreamServer.Context stream) (state w1))
     \<and> (\<exists>rest. evs = EvDone (Done (Log_ConsumeStreamServer.Context stream) (state w)) # rest)"
proof (cases "Done (Log_ConsumeStreamServer.Context stream) (state w)")
  case True
  then show ?thesis using assms
    by (auto simp: ConsumeStream_body_def check_Done_def log_event_def reads_at_def sent_ok_def)
next
  case False
  let ?w0 = "\<lparr>trace = trace w @ [EvDone False], state = state w\<rparr>"
  show ?thesis
  proof (cases rule: Consume_cases[of "this" "Log_ConsumeStreamServer.Context stream" req ?w0])
    case no_subject
    then show ?thesis using assms False
      by (auto simp: ConsumeStream_body_def check_Done_def log_event_def reads_at_def sent_ok_def)
  next
    case (denied sub e s)
    then show ?thesis using assms False
      by (auto simp: ConsumeStream_body_def check_Done_def log_event_def reads_at_def sent_ok_def
          All_less_Suc2 split: error.splits)
  next
    case (no_log au s)
    then show ?thesis using assms False
      by (auto simp: ConsumeStream_body_def check_Done_def log_event_def reads_at_def sent_ok_def
          All_less_Suc2)
  next
    case (read_failed au rcd e s)
    then show ?thesis using assms False
      by (auto simp: ConsumeStream_body_def check_Done_def log_event_def reads_at_def sent_ok_def
          All_less_Suc2 split: error.splits)
  next
    case (read_ok au rcd s)
    then show ?thesis using assms False
      by (auto simp: ConsumeStream_body_def check_Done_def log_event_def reads_at_def sent_ok_def
          call_SendConsume_def All_less_Suc2 split: prod.splits option.splits)
  qed
qed

lemma ConsumeStream_events:
  "ConsumeStream n this req stream w = (r, req', w') \<Longrightarrow>
   \<exists>evs. trace w' = trace w @ evs
     \<and> ConsumeRequest.Offset req' = ConsumeRequest.Offset req + of_nat (sent_ok evs)
     \<and> reads_at (ConsumeRequest.Offset req) evs
     \<and> map fst (sent_responses evs) =
         map (\<lambda>(off, rcd). Some \<lparr>ConsumeResponse.Record = rcd\<rparr>) (successful_reads evs)
     \<and> map fst (successful_reads evs) =
         map (\<lambda>i. ConsumeRequest.Offset req + of_nat i) [0..<length (successful_reads evs)]
     \<and> (r = Next \<longrightarrow> sent_ok evs = length (successful_reads evs))
     \<and> set (authorized_actions evs) \<subseteq> {consumeAction}
     \<and> (r = Exit (Returns None) \<longrightarrow>
          (\<exists>evs0. evs = evs0 @ [EvDone True])
          \<and> Done (Log_ConsumeStreamServer.Context stream) (state w'))"
proof (induction n arbitrary: req w)
  case 0
  then show ?case by (simp add: reads_at_def sent_ok_def)
next
  case (Suc n)
  obtain r1 req1 w1 where b: "ConsumeStream_body this req stream w = (r1, req1, w1)"
    by (metis surj_pair)
  from ConsumeStream_body_events[OF b] obtain evs1 where e1:
    "trace w1 = trace w @ evs1"
    "ConsumeRequest.Offset req1 = ConsumeRequest.Offset req + of_nat (sent_ok evs1)"
    "reads_at (ConsumeRequest.Offset req) evs1"
    "map fst (sent_responses evs1) =
       map (\<lambda>(off, rcd). Some \<lparr>ConsumeResponse.Record = rcd\<rparr>) (successful_reads evs1)"
    "successful_reads evs1 = [] \<or> (\<exists>rcd. successful_reads evs1 = [(ConsumeRequest.Offset req, rcd)])"
    "r1 = Next \<longrightarrow> sent_ok evs1 = length (successful_reads evs1)"
    "set (authorized_actions evs1) \<subseteq> {consumeAction}"
    "r1 = Exit (Returns None) \<longrightarrow>
       evs1 = [EvDone True] \<and> Done (Log_ConsumeStreamServer.Context stream) (state w1)"
    by blast
  have c1: "map fst (successful_reads evs1) =
         map (\<lambda>i. ConsumeRequest.Offset req + of_nat i) [0..<length (successful_reads evs1)]"
    using e1(5) by auto
  show ?case
  proof (cases r1)
    case (Exit x)
    with b Suc.prems have eq: "r = r1" "req' = req1" "w' = w1" by simp_all
    show ?thesis
      apply (rule exI[of _ evs1])
      using e1 c1 eq Exit by simp
  next
    case Next
    with b Suc.prems have run: "ConsumeStream n this req1 stream w1 = (r, req', w')" by simp
    from Suc.IH[OF run] obtain evs2 where e2:
      "trace w' = trace w1 @ evs2"
      "ConsumeRequest.Offset req' = ConsumeRequest.Offset req1 + of_nat (sent_ok evs2)"
      "reads_at (ConsumeRequest.Offset req1) evs2"
      "map fst (sent_responses evs2) =
         map (\<lambda>(off, rcd). Some \<lparr>ConsumeResponse.Record = rcd\<rparr>) (successful_reads evs2)"
      "map fst (successful_reads evs2) =
         map (\<lambda>i. ConsumeRequest.Offset req1 + of_nat i) [0..<length (successful_reads evs2)]"
      "r = Next \<longrightarrow> sent_ok evs2 = length (successful_reads evs2)"
      "set (authorized_actions evs2) \<subseteq> {consumeAction}"
      "r = Exit (Returns None) \<longrightarrow>
          (\<exists>evs0. evs2 = evs0 @ [EvDone True])
          \<and> Done (Log_ConsumeStreamServer.Context stream) (state w')"
      by blast
    have n1: "sent_ok evs1 = length (successful_reads evs1)" using e1(6) Next by simp
    have t: "trace w' = trace w @ (evs1 @ evs2)" using e1(1) e2(1) by simp
    have o: "ConsumeRequest.Offset req' = ConsumeRequest.Offset req + of_nat (sent_ok (evs1 @ evs2))"
      using e1(2) e2(2) by (simp add: sent_ok_append add.assoc)
    have ra: "reads_at (ConsumeRequest.Offset req) (evs1 @ evs2)"
      using reads_at_append[OF e1(3)] e2(3) e1(2) by simp
    have sr: "map fst (sent_responses (evs1 @ evs2)) =
         map (\<lambda>(off, rcd). Some \<lparr>ConsumeResponse.Record = rcd\<rparr>) (successful_reads (evs1 @ evs2))"
      using e1(4) e2(4) by (simp add: sent_responses_append successful_reads_append)
    have cs: "map fst (successful_reads (evs1 @ evs2)) =
         map (\<lambda>i. ConsumeRequest.Offset req + of_nat i) [0..<length (successful_reads (evs1 @ evs2))]"
    proof (cases "successful_reads evs1")
      case Nil
      then show ?thesis using e2(5) e1(2) n1 by (simp add: successful_reads_append)
    next
      case (Cons a list)
      then obtain rcd where s1: "successful_reads evs1 = [(ConsumeRequest.Offset req, rcd)]"
        using e1(5) by auto
      then have "ConsumeRequest.Offset req1 = ConsumeRequest.Offset req + 1"
        using e1(2) n1 by simp
      then show ?thesis using e2(5) s1
          consecutive_shift[of "ConsumeRequest.Offset req" "length (successful_reads evs2)"]
        by (simp add: successful_reads_append del: upt_Suc)
    qed
    have nx: "r = Next \<longrightarrow> sent_ok (evs1 @ evs2) = length (successful_reads (evs1 @ evs2))"
      using n1 e2(6) by (simp add: sent_ok_append successful_reads_append)
    have aa: "set (authorized_actions (evs1 @ evs2)) \<subseteq> {consumeAction}"
      using e1(7) e2(7) by (simp add: authorized_actions_append)
    have dn: "r = Exit (Returns None) \<longrightarrow>
          (\<exists>evs0. evs1 @ evs2 = evs0 @ [EvDone True])
          \<and> Done (Log_ConsumeStreamServer.Context stream) (state w')"
      using e2(8) by auto
    show ?thesis
      apply (rule exI[of _ "evs1 @ evs2"])
      using t o ra sr cs nx aa dn by blast
  qed
qed

lemma ProduceStream_body_events:
  assumes "ProduceStream_body this stream w = (r, w1)"
  shows "\<exists>evs. trace w1 = trace w @ evs \<and> set (authorized_actions evs) \<subseteq> {consumeAction}"
proof -
  obtain req err s where rc: "Recv stream (state w) = ((req, err), s)"
    by (metis surj_pair)
  let ?w0 = "\<lparr>trace = trace w @ [EvRecv req err], state = s\<rparr>"
  obtain out w2 where p: "Produce this (Log_ProduceStreamServer.Context stream) req ?w0 = (out, w2)"
    by (metis surj_pair)
  from Produce_events[OF p] obtain evs where
    e: "trace w2 = trace w @ EvRecv req err # evs" "set (authorized_actions evs) \<subseteq> {consumeAction}"
    by auto
  show ?thesis
    using assms rc p e
    by (auto simp: ProduceStream_body_def call_Recv_def call_SendProduce_def log_event_def
        authorized_actions_append split: option.splits prod.splits outcome.splits)
qed

lemma ProduceStream_events:
  "ProduceStream n this stream w = (r, w') \<Longrightarrow>
   \<exists>evs. trace w' = trace w @ evs \<and> set (authorized_actions evs) \<subseteq> {consumeAction}"
proof (induction n arbitrary: w)
  case 0
  then show ?case by simp
next
  case (Suc n)
  obtain r1 w1 where b: "ProduceStream_body this stream w = (r1, w1)"
    by (metis surj_pair)
  from ProduceStream_body_events[OF b] obtain evs1 where
    e1: "trace w1 = trace w @ evs1" "set (authorized_actions evs1) \<subseteq> {consumeAction}" by blast
  show ?case
  proof (cases r1)
    case (Exit x)
    with b Suc.prems have "w' = w1" by simp
    then show ?thesis using e1 by blast
  next
    case Next
    with b Suc.prems have "ProduceStream n this stream w1 = (r, w')" by simp
    from Suc.IH[OF this] obtain evs2 where
      e2: "trace w' = trace w1 @ evs2" "set (authorized_actions evs2) \<subseteq> {consumeAction}" by blast
    have "trace w' = trace w @ (evs1 @ evs2)" using e1 e2 by simp
    moreover have "set (authorized_actions (evs1 @ evs2)) \<subseteq> {consumeAction}"
      using e1 e2 by (simp add: authorized_actions_append)
    ultimately show ?thesis by blast
  qed
qed

subsection \<open>ConsumeStream\<close>

lemma ConsumeStream_keeps_retrying:
  assumes nd: "\<forall>s. \<not> Done (Log_ConsumeStreamServer.Context stream) s"
    and oor: "\<forall>v. \<exists>res x v2. Consume this (Log_ConsumeStreamServer.Context stream) req v =
                (Returns (res, Some (ErrOffsetOutOfRange x)), v2)"
  shows "\<exists>w' evs. ConsumeStream n this req stream w = (Next, req, w')
     \<and> trace w' = trace w @ evs
     \<and> done_checks evs = replicate n False
     \<and> sent_responses evs = []
     \<and> set (read_offsets evs) \<subseteq> {ConsumeRequest.Offset req}"
proof (induction n arbitrary: w)
  case 0
  show ?case by simp
next
  case (Suc n)
  let ?w1 = "\<lparr>trace = trace w @ [EvDone False], state = state w\<rparr>"
  from oor obtain res x v2 where
    c: "Consume this (Log_ConsumeStreamServer.Context stream) req ?w1 =
          (Returns (res, Some (ErrOffsetOutOfRange x)), v2)"
    by blast
  have b: "ConsumeStream_body this req stream w = (Next, req, v2)"
    using nd c by (simp add: ConsumeStream_body_def check_Done_def log_event_def)
  from Consume_events[OF c] obtain evs1 where e1:
    "trace v2 = trace w @ EvDone False # evs1" "done_checks evs1 = []" "sent_responses evs1 = []"
    "set (read_offsets evs1) \<subseteq> {ConsumeRequest.Offset req}"
    by auto
  from Suc.IH[of v2] obtain w' evs2 where e2:
    "ConsumeStream n this req stream v2 = (Next, req, w')" "trace w' = trace v2 @ evs2"
    "done_checks evs2 = replicate n False" "sent_responses evs2 = []"
    "set (read_offsets evs2) \<subseteq> {ConsumeRequest.Offset req}"
    by blast
  have "ConsumeStream (Suc n) this req stream w = (Next, req, w')"
    using b e2(1) by simp
  moreover have "trace w' = trace w @ (EvDone False # evs1 @ evs2)"
    using e1(1) e2(2) by simp
  moreover have "done_checks (EvDone False # evs1 @ evs2) = replicate (Suc n) False"
    using e1(2) e2(3) by (simp add: done_checks_append)
  moreover have "sent_responses (EvDone False # evs1 @ evs2) = []"
    using e1(3) e2(4) by (simp add: sent_responses_append)
  moreover have "set (read_offsets (EvDone False # evs1 @ evs2)) \<subseteq> {ConsumeRequest.Offset req}"
    using e1(4) e2(5) by (simp add: read_offsets_append)
  ultimately show ?case by blast
qed

text \<open>
  Claim C1. In a pass of \<open>ConsumeStream\<close> that finds the context not cancelled:
  if \<open>Consume\<close> fails with an error of type \<open>ErrOffsetOutOfRange\<close>, the pass ends there and the
  loop goes on from the world \<open>Consume\<close> left, with the request (and so its offset)
  unchanged: nothing is sent and nothing else happens before the next pass. If \<open>Consume\<close>
  fails with any other error, the handler returns that error. There is no bound on the
  retries: where the context is never cancelled and \<open>Consume\<close> keeps failing with
  \<open>ErrOffsetOutOfRange\<close>, the handler is still running after any number \<open>n\<close> of passes, with
  the request unchanged, \<open>n\<close> cancellation checks made, every read at the requested offset
  and nothing sent.
\<close>

theorem ConsumeStream_retries_out_of_range:
  "(\<not> Done (Log_ConsumeStreamServer.Context stream) (state w)
      \<and> Consume this (Log_ConsumeStreamServer.Context stream) req
           \<lparr>trace = trace w @ [EvDone False], state = state w\<rparr> =
          (Returns (res, Some (ErrOffsetOutOfRange x)), w2)
     \<longrightarrow> ConsumeStream_body this req stream w = (Next, req, w2)
         \<and> ConsumeStream (Suc n) this req stream w = ConsumeStream n this req stream w2)
   \<and> (\<not> Done (Log_ConsumeStreamServer.Context stream) (state w)
      \<and> Consume this (Log_ConsumeStreamServer.Context stream) req
           \<lparr>trace = trace w @ [EvDone False], state = state w\<rparr> =
          (Returns (res, Some (OtherError x)), w2)
     \<longrightarrow> ConsumeStream (Suc n) this req stream w = (Exit (Returns (Some (OtherError x))), req, w2))
   \<and> ((\<forall>s. \<not> Done (Log_ConsumeStreamServer.Context stream) s)
      \<and> (\<forall>v. \<exists>res x v2. Consume this (Log_ConsumeStreamServer.Context stream) req v =
                (Returns (res, Some (ErrOffsetOutOfRange x)), v2))
     \<longrightarrow> (\<exists>w'. ConsumeStream n this req stream w = (Next, req, w')
           \<and> done_checks (new_events w w') = replicate n False
           \<and> sent_responses (new_events w w') = []
           \<and> set (read_offsets (new_events w w')) \<subseteq> {ConsumeRequest.Offset req}))"
proof (intro conjI impI)
  assume a: "\<not> Done (Log_ConsumeStreamServer.Context stream) (state w)
      \<and> Consume this (Log_ConsumeStreamServer.Context stream) req
           \<lparr>trace = trace w @ [EvDone False], state = state w\<rparr> =
          (Returns (res, Some (ErrOffsetOutOfRange x)), w2)"
  then show b: "ConsumeStream_body this req stream w = (Next, req, w2)"
    by (simp add: ConsumeStream_body_def check_Done_def log_event_def)
  then show "ConsumeStream (Suc n) this req stream w = ConsumeStream n this req stream w2"
    by simp
next
  assume a: "\<not> Done (Log_ConsumeStreamServer.Context stream) (state w)
      \<and> Consume this (Log_ConsumeStreamServer.Context stream) req
           \<lparr>trace = trace w @ [EvDone False], state = state w\<rparr> =
          (Returns (res, Some (OtherError x)), w2)"
  then show "ConsumeStream (Suc n) this req stream w =
      (Exit (Returns (Some (OtherError x))), req, w2)"
    by (simp add: ConsumeStream_body_def check_Done_def log_event_def)
next
  assume a: "(\<forall>s. \<not> Done (Log_ConsumeStreamServer.Context stream) s)
      \<and> (\<forall>v. \<exists>res x v2. Consume this (Log_ConsumeStreamServer.Context stream) req v =
                (Returns (res, Some (ErrOffsetOutOfRange x)), v2))"
  from ConsumeStream_keeps_retrying[of stream "this" req n w] a obtain w' evs where
    "ConsumeStream n this req stream w = (Next, req, w')" "trace w' = trace w @ evs"
    "done_checks evs = replicate n False" "sent_responses evs = []"
    "set (read_offsets evs) \<subseteq> {ConsumeRequest.Offset req}"
    by blast
  then show "\<exists>w'. ConsumeStream n this req stream w = (Next, req, w')
           \<and> done_checks (new_events w w') = replicate n False
           \<and> sent_responses (new_events w w') = []
           \<and> set (read_offsets (new_events w w')) \<subseteq> {ConsumeRequest.Offset req}"
    by (auto simp: new_events_def)
qed

theorem ConsumeStream_retries_out_of_range_witness:
  "\<not> Done (Log_ConsumeStreamServer.Context (consumer asRoot)) (state w0)
   \<and> Consume unsecured (Log_ConsumeStreamServer.Context (consumer asRoot))
        \<lparr>ConsumeRequest.Offset = 3\<rparr> \<lparr>trace = trace w0 @ [EvDone False], state = state w0\<rparr> =
       (Returns (None, Some (ErrOffsetOutOfRange ''offset out of range'')),
        \<lparr>trace = [EvDone False,
                  EvRead 3 None (Some (ErrOffsetOutOfRange ''offset out of range''))],
         state = threeRecords\<rparr>)
   \<and> ConsumeStream_body unsecured \<lparr>ConsumeRequest.Offset = 3\<rparr> (consumer asRoot) w0 =
       (Next, \<lparr>ConsumeRequest.Offset = 3\<rparr>,
        \<lparr>trace = [EvDone False,
                  EvRead 3 None (Some (ErrOffsetOutOfRange ''offset out of range''))],
         state = threeRecords\<rparr>)
   \<and> Consume broken (Log_ConsumeStreamServer.Context (consumer asRoot))
        \<lparr>ConsumeRequest.Offset = 3\<rparr> \<lparr>trace = trace w0 @ [EvDone False], state = state w0\<rparr> =
       (Returns (None, Some (OtherError ''corrupt state'')),
        \<lparr>trace = [EvDone False, EvRead 3 None (Some (OtherError ''corrupt state''))],
         state = threeRecords\<rparr>)
   \<and> ConsumeStream (Suc 0) broken \<lparr>ConsumeRequest.Offset = 3\<rparr> (consumer asRoot) w0 =
       (Exit (Returns (Some (OtherError ''corrupt state''))), \<lparr>ConsumeRequest.Offset = 3\<rparr>,
        \<lparr>trace = [EvDone False, EvRead 3 None (Some (OtherError ''corrupt state''))],
         state = threeRecords\<rparr>)
   \<and> (\<forall>s. \<not> Done (Log_ConsumeStreamServer.Context (consumer asRoot)) s)
   \<and> (\<forall>v. \<exists>res x v2. Consume void (Log_ConsumeStreamServer.Context (consumer asRoot))
              \<lparr>ConsumeRequest.Offset = 3\<rparr> v =
             (Returns (res, Some (ErrOffsetOutOfRange x)), v2))
   \<and> (\<exists>w'. ConsumeStream 4 void \<lparr>ConsumeRequest.Offset = 3\<rparr> (consumer asRoot) w0 =
             (Next, \<lparr>ConsumeRequest.Offset = 3\<rparr>, w')
         \<and> done_checks (new_events w0 w') = replicate 4 False
         \<and> sent_responses (new_events w0 w') = []
         \<and> set (read_offsets (new_events w0 w')) \<subseteq> {3})"
proof -
  let ?req = "\<lparr>ConsumeRequest.Offset = 3\<rparr>"
  let ?w2 = "\<lparr>trace = [EvDone False,
                  EvRead 3 None (Some (ErrOffsetOutOfRange ''offset out of range''))],
         state = threeRecords\<rparr> :: (mem, string, string) world"
  let ?w2b = "\<lparr>trace = [EvDone False, EvRead 3 None (Some (OtherError ''corrupt state''))],
         state = threeRecords\<rparr> :: (mem, string, string) world"
  have nd: "\<forall>s. \<not> Done (Log_ConsumeStreamServer.Context (consumer asRoot)) s"
    by (simp add: consumer_def asRoot_def)
  have ha: "\<not> Done (Log_ConsumeStreamServer.Context (consumer asRoot)) (state w0)
      \<and> Consume unsecured (Log_ConsumeStreamServer.Context (consumer asRoot)) ?req
           \<lparr>trace = trace w0 @ [EvDone False], state = state w0\<rparr> =
          (Returns (None, Some (ErrOffsetOutOfRange ''offset out of range'')), ?w2)"
    by (simp add: Consume_def subject_def call_defs mem_defs)
  have hb: "\<not> Done (Log_ConsumeStreamServer.Context (consumer asRoot)) (state w0)
      \<and> Consume broken (Log_ConsumeStreamServer.Context (consumer asRoot)) ?req
           \<lparr>trace = trace w0 @ [EvDone False], state = state w0\<rparr> =
          (Returns (None, Some (OtherError ''corrupt state'')), ?w2b)"
    by (simp add: Consume_def subject_def call_defs mem_defs)
  have hc: "\<forall>v. \<exists>res x v2. Consume void (Log_ConsumeStreamServer.Context (consumer asRoot)) ?req v =
             (Returns (res, Some (ErrOffsetOutOfRange x)), v2)"
    by (simp add: Consume_def subject_def call_defs mem_defs)
  have ca: "ConsumeStream_body unsecured ?req (consumer asRoot) w0 = (Next, ?req, ?w2)"
    using ha ConsumeStream_retries_out_of_range[of "consumer asRoot" w0 unsecured ?req None
        "''offset out of range''" ?w2 0]
    by blast
  have cb: "ConsumeStream (Suc 0) broken ?req (consumer asRoot) w0 =
       (Exit (Returns (Some (OtherError ''corrupt state''))), ?req, ?w2b)"
    using hb ConsumeStream_retries_out_of_range[of "consumer asRoot" w0 broken ?req None
        "''corrupt state''" ?w2b 0]
    by blast
  have cc: "\<exists>w'. ConsumeStream 4 void ?req (consumer asRoot) w0 = (Next, ?req, w')
         \<and> done_checks (new_events w0 w') = replicate 4 False
         \<and> sent_responses (new_events w0 w') = []
         \<and> set (read_offsets (new_events w0 w')) \<subseteq> {3}"
    using nd hc ConsumeStream_retries_out_of_range[of "consumer asRoot" w0 void ?req None
        "''offset out of range''" ?w2 4]
    by simp
  show ?thesis
    using nd ha hb hc ca cb cc by blast
qed




lemma ConsumeStream_keeps_sending:
  assumes nd: "\<forall>s. \<not> Done (Log_ConsumeStreamServer.Context stream) s"
    and ok: "\<forall>q v. \<exists>res v2. Consume this (Log_ConsumeStreamServer.Context stream) q v =
                (Returns (res, None), v2)"
    and sd: "\<forall>res s. fst (Log_ConsumeStreamServer.Send stream res s) = None"
  shows "\<exists>w' evs. ConsumeStream n this req stream w =
         (Next, req\<lparr>ConsumeRequest.Offset := ConsumeRequest.Offset req + of_nat n\<rparr>, w')
     \<and> trace w' = trace w @ evs
     \<and> sent_ok evs = n"
proof (induction n arbitrary: req w)
  case 0
  show ?case by (simp add: sent_ok_def)
next
  case (Suc n)
  let ?w1 = "\<lparr>trace = trace w @ [EvDone False], state = state w\<rparr>"
  let ?req1 = "req\<lparr>ConsumeRequest.Offset := ConsumeRequest.Offset req + 1\<rparr>"
  from ok obtain res v2 where
    c: "Consume this (Log_ConsumeStreamServer.Context stream) req ?w1 = (Returns (res, None), v2)"
    by blast
  obtain e s3 where s: "Log_ConsumeStreamServer.Send stream res (state v2) = (e, s3)"
    by (metis surj_pair)
  have e: "e = None" using sd s by (metis fst_conv)
  let ?w3 = "\<lparr>trace = trace v2 @ [EvSendConsume res None], state = s3\<rparr>"
  have b: "ConsumeStream_body this req stream w = (Next, ?req1, ?w3)"
    using nd c s e
    by (simp add: ConsumeStream_body_def check_Done_def call_SendConsume_def log_event_def)
  from Consume_events[OF c] obtain evs1 where e1:
    "trace v2 = trace w @ EvDone False # evs1" "sent_responses evs1 = []"
    by auto
  from Suc.IH[of ?req1 ?w3] obtain w' evs2 where e2:
    "ConsumeStream n this ?req1 stream ?w3 =
       (Next, ?req1\<lparr>ConsumeRequest.Offset := ConsumeRequest.Offset ?req1 + of_nat n\<rparr>, w')"
    "trace w' = trace ?w3 @ evs2" "sent_ok evs2 = n"
    by blast
  have "ConsumeStream (Suc n) this req stream w =
      (Next, req\<lparr>ConsumeRequest.Offset := ConsumeRequest.Offset req + of_nat (Suc n)\<rparr>, w')"
    using b e2(1) by (simp add: add.assoc add.commute)
  moreover have "trace w' = trace w @ (EvDone False # evs1 @ EvSendConsume res None # evs2)"
    using e1(1) e2(2) by simp
  moreover have "sent_ok (EvDone False # evs1 @ EvSendConsume res None # evs2) = Suc n"
    using e1(2) e2(3) by (simp add: sent_ok_def sent_responses_append)
  ultimately show ?case by blast
qed

text \<open>
  Claim C3. Take any run of \<open>ConsumeStream\<close> started at offset \<open>k\<close>, stopped or still going.
  The reads that succeeded were at the offsets \<open>k, k + 1, k + 2, \<dots>\<close> in this order, the
  responses handed to \<open>Send\<close> are exactly the records of those reads in the same order, every
  read (failed or not) asked for \<open>k\<close> plus the number of responses sent without error before
  it, and the offset of the request at the end is \<open>k\<close> plus the number of responses sent
  without error. Offsets are \<open>uint64\<close> values and \<open>+\<close> is their addition.

  Pass by pass, with the context not done at the check: when \<open>Consume\<close> succeeds, its
  response is the record just read at the requested offset, the pass hands that response to
  \<open>Send\<close>, and if \<open>Send\<close> succeeds the loop goes on with the offset advanced by one; if \<open>Send\<close>
  fails the handler returns that error with the offset as it was; when \<open>Consume\<close> fails with
  \<open>ErrOffsetOutOfRange\<close> the loop goes on with the offset as it was. Where the context is
  never done and \<open>Consume\<close> and \<open>Send\<close> always succeed, \<open>n\<close> passes send \<open>n\<close> responses and
  leave the offset at \<open>k + n\<close>.
\<close>

theorem ConsumeStream_consecutive_offsets:
  "(ConsumeStream n this req stream w = (r, req', w') \<longrightarrow>
      trace w' = trace w @ new_events w w'
      \<and> map fst (successful_reads (new_events w w')) =
          map (\<lambda>i. ConsumeRequest.Offset req + of_nat i)
            [0..<length (successful_reads (new_events w w'))]
      \<and> map fst (sent_responses (new_events w w')) =
          map (\<lambda>(off, rcd). Some \<lparr>ConsumeResponse.Record = rcd\<rparr>)
            (successful_reads (new_events w w'))
      \<and> (\<forall>i<length (new_events w w'). \<forall>off rcd err.
            new_events w w' ! i = EvRead off rcd err \<longrightarrow>
            off = ConsumeRequest.Offset req + of_nat (sent_ok (take i (new_events w w'))))
      \<and> ConsumeRequest.Offset req' =
          ConsumeRequest.Offset req + of_nat (sent_ok (new_events w w')))
   \<and> (\<not> Done (Log_ConsumeStreamServer.Context stream) (state v)
      \<and> Consume this (Log_ConsumeStreamServer.Context stream) q
           \<lparr>trace = trace v @ [EvDone False], state = state v\<rparr> =
          (Returns (res, None), v2)
      \<and> Log_ConsumeStreamServer.Send stream res (state v2) = (None, s3)
     \<longrightarrow> (\<exists>rcd evs. res = Some \<lparr>ConsumeResponse.Record = rcd\<rparr>
            \<and> trace v2 = evs @ [EvRead (ConsumeRequest.Offset q) rcd None])
         \<and> ConsumeStream_body this q stream v =
             (Next, q\<lparr>ConsumeRequest.Offset := ConsumeRequest.Offset q + 1\<rparr>,
              \<lparr>trace = trace v2 @ [EvSendConsume res None], state = s3\<rparr>)
         \<and> ConsumeStream (Suc m) this q stream v =
             ConsumeStream m this (q\<lparr>ConsumeRequest.Offset := ConsumeRequest.Offset q + 1\<rparr>)
               stream \<lparr>trace = trace v2 @ [EvSendConsume res None], state = s3\<rparr>)
   \<and> (\<not> Done (Log_ConsumeStreamServer.Context stream) (state v)
      \<and> Consume this (Log_ConsumeStreamServer.Context stream) q
           \<lparr>trace = trace v @ [EvDone False], state = state v\<rparr> =
          (Returns (res, None), v2)
      \<and> Log_ConsumeStreamServer.Send stream res (state v2) = (Some e, s3)
     \<longrightarrow> ConsumeStream_body this q stream v =
             (Exit (Returns (Some e)), q,
              \<lparr>trace = trace v2 @ [EvSendConsume res (Some e)], state = s3\<rparr>))
   \<and> (\<not> Done (Log_ConsumeStreamServer.Context stream) (state v)
      \<and> Consume this (Log_ConsumeStreamServer.Context stream) q
           \<lparr>trace = trace v @ [EvDone False], state = state v\<rparr> =
          (Returns (res, Some (ErrOffsetOutOfRange x)), v2)
     \<longrightarrow> ConsumeStream_body this q stream v = (Next, q, v2))
   \<and> ((\<forall>s. \<not> Done (Log_ConsumeStreamServer.Context stream) s)
      \<and> (\<forall>q v. \<exists>res v2. Consume this (Log_ConsumeStreamServer.Context stream) q v =
                (Returns (res, None), v2))
      \<and> (\<forall>res s. fst (Log_ConsumeStreamServer.Send stream res s) = None)
     \<longrightarrow> (\<exists>w''. ConsumeStream n this req stream w =
             (Next, req\<lparr>ConsumeRequest.Offset := ConsumeRequest.Offset req + of_nat n\<rparr>, w'')
           \<and> sent_ok (new_events w w'') = n))"
proof (intro conjI impI)
  assume run: "ConsumeStream n this req stream w = (r, req', w')"
  from ConsumeStream_events[OF run] obtain evs where e:
    "trace w' = trace w @ evs"
    "ConsumeRequest.Offset req' = ConsumeRequest.Offset req + of_nat (sent_ok evs)"
    "reads_at (ConsumeRequest.Offset req) evs"
    "map fst (sent_responses evs) =
       map (\<lambda>(off, rcd). Some \<lparr>ConsumeResponse.Record = rcd\<rparr>) (successful_reads evs)"
    "map fst (successful_reads evs) =
       map (\<lambda>i. ConsumeRequest.Offset req + of_nat i) [0..<length (successful_reads evs)]"
    by blast
  have n: "new_events w w' = evs" using e(1) by (simp add: new_events_def)
  show "trace w' = trace w @ new_events w w'" unfolding n using e by simp
  show "map fst (successful_reads (new_events w w')) =
          map (\<lambda>i. ConsumeRequest.Offset req + of_nat i)
            [0..<length (successful_reads (new_events w w'))]" unfolding n using e by simp
  show "map fst (sent_responses (new_events w w')) =
          map (\<lambda>(off, rcd). Some \<lparr>ConsumeResponse.Record = rcd\<rparr>)
            (successful_reads (new_events w w'))" unfolding n using e by simp
  show "\<forall>i<length (new_events w w'). \<forall>off rcd err.
            new_events w w' ! i = EvRead off rcd err \<longrightarrow>
            off = ConsumeRequest.Offset req + of_nat (sent_ok (take i (new_events w w')))"
    unfolding n using e(3) by (simp add: reads_at_def)
  show "ConsumeRequest.Offset req' =
          ConsumeRequest.Offset req + of_nat (sent_ok (new_events w w'))" unfolding n using e by simp
next
  assume a: "\<not> Done (Log_ConsumeStreamServer.Context stream) (state v)
      \<and> Consume this (Log_ConsumeStreamServer.Context stream) q
           \<lparr>trace = trace v @ [EvDone False], state = state v\<rparr> =
          (Returns (res, None), v2)
      \<and> Log_ConsumeStreamServer.Send stream res (state v2) = (None, s3)"
  show "\<exists>rcd evs. res = Some \<lparr>ConsumeResponse.Record = rcd\<rparr>
            \<and> trace v2 = evs @ [EvRead (ConsumeRequest.Offset q) rcd None]"
    by (cases rule: Consume_cases[of "this" "Log_ConsumeStreamServer.Context stream" q
          "\<lparr>trace = trace v @ [EvDone False], state = state v\<rparr>"])
      (use a in auto)
  from a show b: "ConsumeStream_body this q stream v =
             (Next, q\<lparr>ConsumeRequest.Offset := ConsumeRequest.Offset q + 1\<rparr>,
              \<lparr>trace = trace v2 @ [EvSendConsume res None], state = s3\<rparr>)"
    by (simp add: ConsumeStream_body_def check_Done_def call_SendConsume_def log_event_def)
  then show "ConsumeStream (Suc m) this q stream v =
             ConsumeStream m this (q\<lparr>ConsumeRequest.Offset := ConsumeRequest.Offset q + 1\<rparr>)
               stream \<lparr>trace = trace v2 @ [EvSendConsume res None], state = s3\<rparr>"
    by simp
next
  assume a: "\<not> Done (Log_ConsumeStreamServer.Context stream) (state v)
      \<and> Consume this (Log_ConsumeStreamServer.Context stream) q
           \<lparr>trace = trace v @ [EvDone False], state = state v\<rparr> =
          (Returns (res, None), v2)
      \<and> Log_ConsumeStreamServer.Send stream res (state v2) = (Some e, s3)"
  then show "ConsumeStream_body this q stream v =
             (Exit (Returns (Some e)), q,
              \<lparr>trace = trace v2 @ [EvSendConsume res (Some e)], state = s3\<rparr>)"
    by (simp add: ConsumeStream_body_def check_Done_def call_SendConsume_def log_event_def)
next
  assume a: "\<not> Done (Log_ConsumeStreamServer.Context stream) (state v)
      \<and> Consume this (Log_ConsumeStreamServer.Context stream) q
           \<lparr>trace = trace v @ [EvDone False], state = state v\<rparr> =
          (Returns (res, Some (ErrOffsetOutOfRange x)), v2)"
  then show "ConsumeStream_body this q stream v = (Next, q, v2)"
    by (simp add: ConsumeStream_body_def check_Done_def log_event_def)
next
  assume a: "(\<forall>s. \<not> Done (Log_ConsumeStreamServer.Context stream) s)
      \<and> (\<forall>q v. \<exists>res v2. Consume this (Log_ConsumeStreamServer.Context stream) q v =
                (Returns (res, None), v2))
      \<and> (\<forall>res s. fst (Log_ConsumeStreamServer.Send stream res s) = None)"
  from ConsumeStream_keeps_sending[of stream "this" n req w] a obtain w'' evs where
    "ConsumeStream n this req stream w =
       (Next, req\<lparr>ConsumeRequest.Offset := ConsumeRequest.Offset req + of_nat n\<rparr>, w'')"
    "trace w'' = trace w @ evs" "sent_ok evs = n"
    by blast
  then show "\<exists>w''. ConsumeStream n this req stream w =
             (Next, req\<lparr>ConsumeRequest.Offset := ConsumeRequest.Offset req + of_nat n\<rparr>, w'')
           \<and> sent_ok (new_events w w'') = n"
    by (auto simp: new_events_def)
qed

theorem ConsumeStream_consecutive_offsets_witness:
  "ConsumeStream 5 tailing \<lparr>ConsumeRequest.Offset = 3\<rparr> (consumer asRoot) w0 =
     (Next, \<lparr>ConsumeRequest.Offset = 4\<rparr>,
      \<lparr>trace = [EvDone False,
                EvRead 3 None (Some (ErrOffsetOutOfRange ''offset out of range'')),
                EvDone False, EvRead 3 (Some ''msg-3'') None,
                EvSendConsume (Some \<lparr>ConsumeResponse.Record = Some ''msg-3''\<rparr>) None,
                EvDone False,
                EvRead 4 None (Some (ErrOffsetOutOfRange ''offset out of range'')),
                EvDone False,
                EvRead 4 None (Some (ErrOffsetOutOfRange ''offset out of range'')),
                EvDone False,
                EvRead 4 None (Some (ErrOffsetOutOfRange ''offset out of range''))],
       state = \<lparr>records = [''msg-0'', ''msg-1'', ''msg-2'', ''msg-3''], arriving = []\<rparr>\<rparr>)
   \<and> successful_reads (new_events w0
        \<lparr>trace = [EvDone False,
                EvRead 3 None (Some (ErrOffsetOutOfRange ''offset out of range'')),
                EvDone False, EvRead 3 (Some ''msg-3'') None,
                EvSendConsume (Some \<lparr>ConsumeResponse.Record = Some ''msg-3''\<rparr>) None,
                EvDone False,
                EvRead 4 None (Some (ErrOffsetOutOfRange ''offset out of range'')),
                EvDone False,
                EvRead 4 None (Some (ErrOffsetOutOfRange ''offset out of range'')),
                EvDone False,
                EvRead 4 None (Some (ErrOffsetOutOfRange ''offset out of range''))],
         state = \<lparr>records = [''msg-0'', ''msg-1'', ''msg-2'', ''msg-3''], arriving = []\<rparr>\<rparr>) =
       [(3, Some ''msg-3'')]
   \<and> map fst (sent_responses (new_events w0
        \<lparr>trace = [EvDone False,
                EvRead 3 None (Some (ErrOffsetOutOfRange ''offset out of range'')),
                EvDone False, EvRead 3 (Some ''msg-3'') None,
                EvSendConsume (Some \<lparr>ConsumeResponse.Record = Some ''msg-3''\<rparr>) None,
                EvDone False,
                EvRead 4 None (Some (ErrOffsetOutOfRange ''offset out of range'')),
                EvDone False,
                EvRead 4 None (Some (ErrOffsetOutOfRange ''offset out of range'')),
                EvDone False,
                EvRead 4 None (Some (ErrOffsetOutOfRange ''offset out of range''))],
         state = \<lparr>records = [''msg-0'', ''msg-1'', ''msg-2'', ''msg-3''], arriving = []\<rparr>\<rparr>)) =
       [Some \<lparr>ConsumeResponse.Record = Some ''msg-3''\<rparr>]
   \<and> \<not> Done (Log_ConsumeStreamServer.Context (consumer asRoot)) (state w0)
   \<and> Consume unsecured (Log_ConsumeStreamServer.Context (consumer asRoot))
        \<lparr>ConsumeRequest.Offset = 1\<rparr> \<lparr>trace = trace w0 @ [EvDone False], state = state w0\<rparr> =
       (Returns (Some \<lparr>ConsumeResponse.Record = Some ''msg-1''\<rparr>, None),
        \<lparr>trace = [EvDone False, EvRead 1 (Some ''msg-1'') None], state = threeRecords\<rparr>)
   \<and> Log_ConsumeStreamServer.Send (consumer asRoot)
        (Some \<lparr>ConsumeResponse.Record = Some ''msg-1''\<rparr>) threeRecords = (None, threeRecords)
   \<and> ConsumeStream_body unsecured \<lparr>ConsumeRequest.Offset = 1\<rparr> (consumer asRoot) w0 =
       (Next, \<lparr>ConsumeRequest.Offset = 2\<rparr>,
        \<lparr>trace = [EvDone False, EvRead 1 (Some ''msg-1'') None,
                  EvSendConsume (Some \<lparr>ConsumeResponse.Record = Some ''msg-1''\<rparr>) None],
         state = threeRecords\<rparr>)
   \<and> \<not> Done (Log_ConsumeStreamServer.Context (closing untilFour)) (state w0)
   \<and> Consume racing (Log_ConsumeStreamServer.Context (closing untilFour))
        \<lparr>ConsumeRequest.Offset = 0\<rparr> \<lparr>trace = trace w0 @ [EvDone False], state = state w0\<rparr> =
       (Returns (Some \<lparr>ConsumeResponse.Record = Some ''msg-0''\<rparr>, None),
        \<lparr>trace = [EvDone False, EvAuthorize ''root'' ''*'' ''consume'' None,
                  EvRead 0 (Some ''msg-0'') None],
         state = \<lparr>records = [''msg-0'', ''msg-1'', ''msg-2'', ''msg-3''], arriving = []\<rparr>\<rparr>)
   \<and> Log_ConsumeStreamServer.Send (closing untilFour)
        (Some \<lparr>ConsumeResponse.Record = Some ''msg-0''\<rparr>)
        \<lparr>records = [''msg-0'', ''msg-1'', ''msg-2'', ''msg-3''], arriving = []\<rparr> =
       (Some (OtherError ''context canceled''),
        \<lparr>records = [''msg-0'', ''msg-1'', ''msg-2'', ''msg-3''], arriving = []\<rparr>)
   \<and> ConsumeStream_body racing \<lparr>ConsumeRequest.Offset = 0\<rparr> (closing untilFour) w0 =
       (Exit (Returns (Some (OtherError ''context canceled''))), \<lparr>ConsumeRequest.Offset = 0\<rparr>,
        \<lparr>trace = [EvDone False, EvAuthorize ''root'' ''*'' ''consume'' None,
                  EvRead 0 (Some ''msg-0'') None,
                  EvSendConsume (Some \<lparr>ConsumeResponse.Record = Some ''msg-0''\<rparr>)
                    (Some (OtherError ''context canceled''))],
         state = \<lparr>records = [''msg-0'', ''msg-1'', ''msg-2'', ''msg-3''], arriving = []\<rparr>\<rparr>)
   \<and> Consume tailing (Log_ConsumeStreamServer.Context (consumer asRoot))
        \<lparr>ConsumeRequest.Offset = 3\<rparr> \<lparr>trace = trace w0 @ [EvDone False], state = state w0\<rparr> =
       (Returns (None, Some (ErrOffsetOutOfRange ''offset out of range'')),
        \<lparr>trace = [EvDone False,
                  EvRead 3 None (Some (ErrOffsetOutOfRange ''offset out of range''))],
         state = \<lparr>records = [''msg-0'', ''msg-1'', ''msg-2'', ''msg-3''], arriving = []\<rparr>\<rparr>)
   \<and> ConsumeStream_body tailing \<lparr>ConsumeRequest.Offset = 3\<rparr> (consumer asRoot) w0 =
       (Next, \<lparr>ConsumeRequest.Offset = 3\<rparr>,
        \<lparr>trace = [EvDone False,
                  EvRead 3 None (Some (ErrOffsetOutOfRange ''offset out of range''))],
         state = \<lparr>records = [''msg-0'', ''msg-1'', ''msg-2'', ''msg-3''], arriving = []\<rparr>\<rparr>)
   \<and> (\<forall>s. \<not> Done (Log_ConsumeStreamServer.Context (consumer asRoot)) s)
   \<and> (\<forall>q v. \<exists>res v2. Consume endless (Log_ConsumeStreamServer.Context (consumer asRoot)) q v =
                (Returns (res, None), v2))
   \<and> (\<forall>res s. fst (Log_ConsumeStreamServer.Send (consumer asRoot) res s) = None)
   \<and> (\<exists>w''. ConsumeStream 3 endless \<lparr>ConsumeRequest.Offset = 7\<rparr> (consumer asRoot) w0 =
             (Next, \<lparr>ConsumeRequest.Offset = 10\<rparr>, w'')
           \<and> sent_ok (new_events w0 w'') = 3)"
proof -
  let ?four = "\<lparr>records = [''msg-0'', ''msg-1'', ''msg-2'', ''msg-3''], arriving = []\<rparr>"
  let ?w' = "\<lparr>trace = [EvDone False,
                EvRead 3 None (Some (ErrOffsetOutOfRange ''offset out of range'')),
                EvDone False, EvRead 3 (Some ''msg-3'') None,
                EvSendConsume (Some \<lparr>ConsumeResponse.Record = Some ''msg-3''\<rparr>) None,
                EvDone False,
                EvRead 4 None (Some (ErrOffsetOutOfRange ''offset out of range'')),
                EvDone False,
                EvRead 4 None (Some (ErrOffsetOutOfRange ''offset out of range'')),
                EvDone False,
                EvRead 4 None (Some (ErrOffsetOutOfRange ''offset out of range''))],
       state = ?four\<rparr> :: (mem, string, string) world"
  let ?v2a = "\<lparr>trace = [EvDone False, EvRead 1 (Some ''msg-1'') None], state = threeRecords\<rparr>
       :: (mem, string, string) world"
  let ?v2b = "\<lparr>trace = [EvDone False, EvAuthorize ''root'' ''*'' ''consume'' None,
                  EvRead 0 (Some ''msg-0'') None], state = ?four\<rparr>
       :: (mem, string, string) world"
  let ?v2c = "\<lparr>trace = [EvDone False,
                  EvRead 3 None (Some (ErrOffsetOutOfRange ''offset out of range''))],
         state = ?four\<rparr> :: (mem, string, string) world"
  have h1: "ConsumeStream 5 tailing \<lparr>ConsumeRequest.Offset = 3\<rparr> (consumer asRoot) w0 =
     (Next, \<lparr>ConsumeRequest.Offset = 4\<rparr>, ?w')"
    by (simp add: ConsumeStream_numeral ConsumeStream_body_def Consume_def subject_def
        call_defs mem_defs)
  have s1: "successful_reads (new_events w0 ?w') = [(3, Some ''msg-3'')]"
    by (simp add: new_events_def w0_def)
  have h2: "\<not> Done (Log_ConsumeStreamServer.Context (consumer asRoot)) (state w0)
      \<and> Consume unsecured (Log_ConsumeStreamServer.Context (consumer asRoot))
           \<lparr>ConsumeRequest.Offset = 1\<rparr> \<lparr>trace = trace w0 @ [EvDone False], state = state w0\<rparr> =
          (Returns (Some \<lparr>ConsumeResponse.Record = Some ''msg-1''\<rparr>, None), ?v2a)
      \<and> Log_ConsumeStreamServer.Send (consumer asRoot)
           (Some \<lparr>ConsumeResponse.Record = Some ''msg-1''\<rparr>) (state ?v2a) = (None, threeRecords)"
    by (simp add: Consume_def subject_def call_defs mem_defs)
  have h3: "\<not> Done (Log_ConsumeStreamServer.Context (closing untilFour)) (state w0)
      \<and> Consume racing (Log_ConsumeStreamServer.Context (closing untilFour))
           \<lparr>ConsumeRequest.Offset = 0\<rparr> \<lparr>trace = trace w0 @ [EvDone False], state = state w0\<rparr> =
          (Returns (Some \<lparr>ConsumeResponse.Record = Some ''msg-0''\<rparr>, None), ?v2b)
      \<and> Log_ConsumeStreamServer.Send (closing untilFour)
           (Some \<lparr>ConsumeResponse.Record = Some ''msg-0''\<rparr>) (state ?v2b) =
          (Some (OtherError ''context canceled''), ?four)"
    by (simp add: Consume_def subject_def call_defs mem_defs)
  have h4: "\<not> Done (Log_ConsumeStreamServer.Context (consumer asRoot)) (state w0)
      \<and> Consume tailing (Log_ConsumeStreamServer.Context (consumer asRoot))
           \<lparr>ConsumeRequest.Offset = 3\<rparr> \<lparr>trace = trace w0 @ [EvDone False], state = state w0\<rparr> =
          (Returns (None, Some (ErrOffsetOutOfRange ''offset out of range'')), ?v2c)"
    by (simp add: Consume_def subject_def call_defs mem_defs)
  have h5: "(\<forall>s. \<not> Done (Log_ConsumeStreamServer.Context (consumer asRoot)) s)
      \<and> (\<forall>q v. \<exists>res v2. Consume endless (Log_ConsumeStreamServer.Context (consumer asRoot)) q v =
                (Returns (res, None), v2))
      \<and> (\<forall>res s. fst (Log_ConsumeStreamServer.Send (consumer asRoot) res s) = None)"
    by (simp add: Consume_def subject_def call_defs mem_defs)
  note c1 = ConsumeStream_consecutive_offsets[of 5 tailing "\<lparr>ConsumeRequest.Offset = 3\<rparr>"
      "consumer asRoot" w0 Next "\<lparr>ConsumeRequest.Offset = 4\<rparr>" ?w',
      THEN conjunct1, THEN mp, OF h1]
  note c2 = ConsumeStream_consecutive_offsets[of _ unsecured _ "consumer asRoot" _ _ _ _
      w0 "\<lparr>ConsumeRequest.Offset = 1\<rparr>" "Some \<lparr>ConsumeResponse.Record = Some ''msg-1''\<rparr>"
      ?v2a threeRecords 0,
      THEN conjunct2, THEN conjunct1, THEN mp, OF h2]
  note c3 = ConsumeStream_consecutive_offsets[of _ racing _ "closing untilFour" _ _ _ _
      w0 "\<lparr>ConsumeRequest.Offset = 0\<rparr>" "Some \<lparr>ConsumeResponse.Record = Some ''msg-0''\<rparr>"
      ?v2b ?four _ "OtherError ''context canceled''",
      THEN conjunct2, THEN conjunct2, THEN conjunct1, THEN mp, OF h3]
  note c4 = ConsumeStream_consecutive_offsets[of _ tailing _ "consumer asRoot" _ _ _ _
      w0 "\<lparr>ConsumeRequest.Offset = 3\<rparr>" None ?v2c _ _ _ "''offset out of range''",
      THEN conjunct2, THEN conjunct2, THEN conjunct2, THEN conjunct1, THEN mp, OF h4]
  note c5 = ConsumeStream_consecutive_offsets[of 3 endless "\<lparr>ConsumeRequest.Offset = 7\<rparr>"
      "consumer asRoot" w0,
      THEN conjunct2, THEN conjunct2, THEN conjunct2, THEN conjunct2, THEN mp, OF h5]
  have c5': "\<exists>w''. ConsumeStream 3 endless \<lparr>ConsumeRequest.Offset = 7\<rparr> (consumer asRoot) w0 =
             (Next, \<lparr>ConsumeRequest.Offset = 10\<rparr>, w'')
           \<and> sent_ok (new_events w0 w'') = 3"
    using c5 by simp
  show ?thesis
    using h1 s1 h2 h3 h4 h5 c1 c2 c3 c4 c5' by simp
qed

subsection \<open>The action handed to the authorizer\<close>

lemma GetServers_events:
  "authorized_actions (new_events w (snd (GetServers this ctx req w))) = []"
  by (auto simp: GetServers_def call_GetServers_def log_event_def new_events_def
      split: option.split prod.split)

text \<open>
  Claim C9. With an authorizer configured and an identified caller, \<open>Produce\<close> makes one
  \<open>Authorize\<close> call and its action is \<open>consumeAction\<close>, the same as for \<open>Consume\<close>. No handler
  of the server (\<open>Produce\<close>, \<open>Consume\<close>, \<open>GetServers\<close>, \<open>ProduceStream\<close>, \<open>ConsumeStream\<close>) ever
  passes \<open>produceAction\<close> to \<open>Authorize\<close>.
\<close>

theorem Produce_authorized_as_consume:
  "(Config.Authorizer this = Some a \<and> Value ctx = Some sub
      \<longrightarrow> authorized_actions (new_events w (snd (Produce this ctx preq w))) = [consumeAction]
         \<and> authorized_actions (new_events w (snd (Consume this ctx creq w))) = [consumeAction])
   \<and> produceAction \<notin> set (authorized_actions (new_events w (snd (Produce this ctx preq w))))
   \<and> produceAction \<notin> set (authorized_actions (new_events w (snd (Consume this ctx creq w))))
   \<and> produceAction \<notin> set (authorized_actions (new_events w (snd (GetServers this ctx greq w))))
   \<and> produceAction \<notin> set (authorized_actions
        (new_events w (snd (ProduceStream n this pstream w))))
   \<and> produceAction \<notin> set (authorized_actions
        (new_events w (snd (snd (ConsumeStream n this creq cstream w)))))"
proof -
  have ne: "produceAction \<noteq> consumeAction"
    by (simp add: produceAction_def consumeAction_def)
  have only: "\<And>w' evs. trace w' = trace w @ evs \<Longrightarrow> set (authorized_actions evs) \<subseteq> {consumeAction}
      \<Longrightarrow> produceAction \<notin> set (authorized_actions (new_events w w'))"
    using ne by (auto simp: new_events_def)
  have p: "produceAction \<notin> set (authorized_actions (new_events w (snd (Produce this ctx preq w))))"
    using Produce_events[of "this" ctx preq w "fst (Produce this ctx preq w)"
        "snd (Produce this ctx preq w)"] only by auto
  have c: "produceAction \<notin> set (authorized_actions (new_events w (snd (Consume this ctx creq w))))"
    using Consume_events[of "this" ctx creq w "fst (Consume this ctx creq w)"
        "snd (Consume this ctx creq w)"] only by auto
  have g: "produceAction \<notin> set (authorized_actions (new_events w (snd (GetServers this ctx greq w))))"
    by (simp add: GetServers_events)
  have ps: "produceAction \<notin> set (authorized_actions
        (new_events w (snd (ProduceStream n this pstream w))))"
    using ProduceStream_events[of n "this" pstream w "fst (ProduceStream n this pstream w)"
        "snd (ProduceStream n this pstream w)"] only by auto
  have cs: "produceAction \<notin> set (authorized_actions
        (new_events w (snd (snd (ConsumeStream n this creq cstream w)))))"
    using ConsumeStream_events[of n "this" creq cstream w
        "fst (ConsumeStream n this creq cstream w)"
        "fst (snd (ConsumeStream n this creq cstream w))"
        "snd (snd (ConsumeStream n this creq cstream w))"] only by auto
  have first: "Config.Authorizer this = Some a \<and> Value ctx = Some sub
      \<longrightarrow> authorized_actions (new_events w (snd (Produce this ctx preq w))) = [consumeAction]
         \<and> authorized_actions (new_events w (snd (Consume this ctx creq w))) = [consumeAction]"
  proof
    assume h: "Config.Authorizer this = Some a \<and> Value ctx = Some sub"
    then have h1: "Config.Authorizer this = Some a" and h2: "Value ctx = Some sub" by simp_all
    obtain res s1 where au: "Authorize a sub objectWildcard consumeAction (state w) = (res, s1)"
      by (metis surj_pair)
    have pp: "Produce this ctx preq w =
        (fst (Produce this ctx preq w), snd (Produce this ctx preq w))" by simp
    have cc: "Consume this ctx creq w =
        (fst (Consume this ctx creq w), snd (Consume this ctx creq w))" by simp
    show "authorized_actions (new_events w (snd (Produce this ctx preq w))) = [consumeAction]
         \<and> authorized_actions (new_events w (snd (Consume this ctx creq w))) = [consumeAction]"
    proof (cases res)
      case (Some e)
      show ?thesis
        using Produce_denied[OF h1 h2 au[unfolded Some], of preq]
          Consume_denied[OF h1 h2 au[unfolded Some], of creq]
        by (simp add: new_events_def)
    next
      case None
      note au' = au[unfolded None]
      show ?thesis
      proof (cases "Config.CommitLog this")
        case n: None
        show ?thesis
          using Produce_allowed_no_log[OF h1 h2 au' n, of preq]
            Consume_allowed_no_log[OF h1 h2 au' n, of creq]
          by (simp add: new_events_def)
      next
        case (Some cl)
        obtain offset err s where ap: "Append cl (ProduceRequest.Record preq) s1 = ((offset, err), s)"
          by (metis surj_pair)
        obtain rcd err' s' where rd: "Read cl (ConsumeRequest.Offset creq) s1 = ((rcd, err'), s')"
          by (metis surj_pair)
        show ?thesis
          using Produce_allowed[OF h1 h2 au' Some ap] Consume_allowed[OF h1 h2 au' Some rd]
          by (simp add: new_events_def)
      qed
    qed
  qed
  show ?thesis using first p c g ps cs by blast
qed

theorem Produce_authorized_as_consume_witness:
  "Config.Authorizer secured = Some acl \<and> Value asRoot = Some ''root''
   \<and> authorized_actions
        (new_events w0 (snd (Produce secured asRoot \<lparr>ProduceRequest.Record = Some ''msg-3''\<rparr> w0))) =
       [''consume'']
   \<and> authorized_actions
        (new_events w0 (snd (Consume secured asRoot \<lparr>ConsumeRequest.Offset = 0\<rparr> w0))) =
       [''consume'']
   \<and> ''produce'' \<notin> set (authorized_actions
        (new_events w0 (snd (ProduceStream 5 secured (producer asRoot) w0))))"
proof -
  have h: "Config.Authorizer secured = Some acl \<and> Value asRoot = Some ''root''"
    by (simp add: secured_def asRoot_def)
  show ?thesis
    using h Produce_authorized_as_consume[of secured acl asRoot "''root''" w0
        "\<lparr>ProduceRequest.Record = Some ''msg-3''\<rparr>" "\<lparr>ConsumeRequest.Offset = 0\<rparr>"
        "()" 5 "producer asRoot" "consumer asRoot"]
    by (simp add: consumeAction_def produceAction_def)
qed

end
